theory Spec2Isabelle
  imports Complex_Main "HOL-Library.Signed_Division" "HOL-Library.AList" "HOL-Library.Multiset"
begin

section \<open>Conventions of the embedding\<close>

text \<open>
  The runtime of snowcord is a Node program. Its numbers that hold shard ids, counts and
  indices are modelled by \<^typ>\<open>int\<close> (integer-valued numbers in the safe range, so the
  \<^verbatim>\<open>Number.isInteger\<close> guards hold by typing); \<^verbatim>\<open>Math.floor(a / b)\<close> is \<open>div\<close> and the
  remainder operator \<^verbatim>\<open>%\<close>, which takes the sign of the dividend, is \<open>smod\<close>.
  An exception is a value \<open>Inl e\<close> of a sum type. A \<^verbatim>\<open>ChildProcess\<close> object is a number
  (\<open>pid\<close>), a \<^verbatim>\<open>Map\<close> whose iteration order is read is an association list, and calls of
  the logger are left out.
\<close>

section \<open>Shard partition planner (\<^verbatim>\<open>expandShardRange\<close>, \<^verbatim>\<open>normalizeBotWorkers\<close>)\<close>

record RuntimeBotWorkerConfig =
  worker_id :: string
  shards :: "int list"

datatype shards_input =
    ShardsArray "int list"
  | ShardsRange (range_start: int) (range_end: int)

record SnowcordBotWorkerConfig =
  cfg_id :: string
  cfg_shards :: shards_input

datatype bot_workers_mode =
    BotWorkersAuto
  | BotWorkersNumber int
  | BotWorkersList "SnowcordBotWorkerConfig list"

datatype config_error =
    InvalidShardId int
  | InvalidShardRange int int
  | AutoNeedsSingleCluster
  | NotAPositiveInteger

text \<open>Template literals render a number in decimal.\<close>

fun string_of_nat :: "nat \<Rightarrow> string" where
  "string_of_nat n =
     (if n < 10 then [''0123456789'' ! n]
      else string_of_nat (n div 10) @ [''0123456789'' ! (n mod 10)])"

declare string_of_nat.simps [simp del]

definition string_of_int :: "int \<Rightarrow> string" where
  "string_of_int i =
     (if i < 0 then CHR ''-'' # string_of_nat (nat (- i)) else string_of_nat (nat i))"

text \<open>
  \<^verbatim>\<open>for (let shardId = first; shardId <= last; shardId += 1) shards.push(shardId)\<close>:
  the loop of \<^verbatim>\<open>expandShardRange\<close> and of the default worker.
\<close>

function range_loop :: "int \<Rightarrow> int \<Rightarrow> int list \<Rightarrow> int list" where
  "range_loop shardId lastId acc =
     (if shardId \<le> lastId then range_loop (shardId + 1) lastId (acc @ [shardId]) else acc)"
  by pat_completeness auto
termination
  by (relation "measure (\<lambda>(i, l, acc). nat (l + 1 - i))") auto

declare range_loop.simps [simp del]

definition expandShardRange :: "shards_input \<Rightarrow> config_error + int list" where
  "expandShardRange input =
     (case input of
        ShardsArray xs \<Rightarrow>
          (case find (\<lambda>v. v < 0) xs of
             Some invalidShard \<Rightarrow> Inl (InvalidShardId invalidShard)
           | None \<Rightarrow> Inr (sort (remdups xs)))
      | ShardsRange rangeStart rangeEnd \<Rightarrow>
          (if rangeEnd < rangeStart then Inl (InvalidShardRange rangeStart rangeEnd)
           else Inr (range_loop rangeStart rangeEnd [])))"

text \<open>The \<^verbatim>\<open>"auto"\<close> loop: one worker per shard.\<close>

function auto_loop :: "int \<Rightarrow> int \<Rightarrow> RuntimeBotWorkerConfig list \<Rightarrow> RuntimeBotWorkerConfig list" where
  "auto_loop shardId lastId shardWorkers =
     (if shardId \<le> lastId
      then auto_loop (shardId + 1) lastId
             (shardWorkers @ [\<lparr>worker_id = ''shard'' @ string_of_int shardId, shards = [shardId]\<rparr>])
      else shardWorkers)"
  by pat_completeness auto
termination
  by (relation "measure (\<lambda>(i, l, acc). nat (l + 1 - i))") auto

declare auto_loop.simps [simp del]

text \<open>The inner loop of the even split: \<^verbatim>\<open>shards.push(cursor + offset)\<close>.\<close>

function shards_loop :: "int \<Rightarrow> int \<Rightarrow> int \<Rightarrow> int list \<Rightarrow> int list" where
  "shards_loop cursor shardCountForWorker offset acc =
     (if offset < shardCountForWorker
      then shards_loop cursor shardCountForWorker (offset + 1) (acc @ [cursor + offset])
      else acc)"
  by pat_completeness auto
termination
  by (relation "measure (\<lambda>(c, n, off, acc). nat (n - off))") auto

declare shards_loop.simps [simp del]

text \<open>The outer loop of the even split, over the worker index.\<close>

function workers_loop ::
  "int \<Rightarrow> int \<Rightarrow> int \<Rightarrow> int \<Rightarrow> int \<Rightarrow> RuntimeBotWorkerConfig list \<Rightarrow> RuntimeBotWorkerConfig list" where
  "workers_loop workerCount baseSize remainder index cursor generatedWorkers =
     (if index < workerCount then
        (let shardCountForWorker = baseSize + (if index < remainder then 1 else 0);
             shardList = shards_loop cursor shardCountForWorker 0 []
         in workers_loop workerCount baseSize remainder (index + 1) (cursor + shardCountForWorker)
              (generatedWorkers @ [\<lparr>worker_id = ''bot-'' @ string_of_int index, shards = shardList\<rparr>]))
      else generatedWorkers)"
  by pat_completeness auto
termination
  by (relation "measure (\<lambda>(n, b, r, i, c, acc). nat (n - i))") auto

declare workers_loop.simps [simp del]

text \<open>\<^verbatim>\<open>workers.map(...)\<close> over an explicit worker list; the first exception ends it.\<close>

fun map_workers :: "SnowcordBotWorkerConfig list \<Rightarrow> config_error + RuntimeBotWorkerConfig list" where
  "map_workers [] = Inr []"
| "map_workers (worker # rest) =
     (case expandShardRange (cfg_shards worker) of
        Inl e \<Rightarrow> Inl e
      | Inr expanded \<Rightarrow>
          (case map_workers rest of
             Inl e \<Rightarrow> Inl e
           | Inr mapped \<Rightarrow> Inr (\<lparr>worker_id = cfg_id worker, shards = expanded\<rparr> # mapped)))"

definition normalizeBotWorkers ::
  "bot_workers_mode option \<Rightarrow> int \<Rightarrow> int \<Rightarrow> int \<Rightarrow> config_error + RuntimeBotWorkerConfig list" where
  "normalizeBotWorkers workers firstShardId lastShardId clusterCount =
     (case workers of
        Some BotWorkersAuto \<Rightarrow>
          (if clusterCount \<noteq> 1 then Inl AutoNeedsSingleCluster
           else Inr (auto_loop firstShardId lastShardId []))
      | Some (BotWorkersNumber n) \<Rightarrow>
          (if n \<le> 0 then Inl NotAPositiveInteger
           else
             (let totalShardCount = lastShardId - firstShardId + 1;
                  workerCount = n;
                  baseSize = totalShardCount div workerCount;
                  remainder = totalShardCount smod workerCount
              in Inr (workers_loop workerCount baseSize remainder 0 firstShardId [])))
      | Some (BotWorkersList ws) \<Rightarrow>
          (if ws \<noteq> [] then map_workers ws
           else Inr [\<lparr>worker_id = ''bot-0'', shards = range_loop firstShardId lastShardId []\<rparr>])
      | None \<Rightarrow> Inr [\<lparr>worker_id = ''bot-0'', shards = range_loop firstShardId lastShardId []\<rparr>])"

text \<open>
  Closed forms used in the proofs about the even split: the number of shards of the worker
  at index \<open>k\<close>, and the value of \<^verbatim>\<open>cursor\<close> when the loop that started at index \<open>i\<close>
  with cursor \<open>c\<close> reaches index \<open>k\<close>.
\<close>

definition shardCountAt :: "int \<Rightarrow> int \<Rightarrow> int \<Rightarrow> int" where
  "shardCountAt b r k = b + (if k < r then 1 else 0)"

definition cursorAt :: "int \<Rightarrow> int \<Rightarrow> int \<Rightarrow> int \<Rightarrow> int \<Rightarrow> int" where
  "cursorAt b r i c k = c + (k - i) * b + (min k r - min i r)"

section \<open>Inter-process messages (runtime/types.ts)\<close>

type_synonym pid = nat

text \<open>A gateway payload: its event name \<^verbatim>\<open>t\<close>, when it has one, and the rest as an opaque blob.\<close>

datatype DiscordGatewayPayload = Payload (payload_t: "string option") (payload_d: string)

text \<open>
  The message kinds of the four directions (\<^verbatim>\<open>BotInboundMessage\<close>, \<^verbatim>\<open>BotOutboundMessage\<close>,
  \<^verbatim>\<open>GatewayInboundMessage\<close>, \<^verbatim>\<open>GatewayOutboundMessage\<close>) share their shapes and are cast into
  each other by the supervisor, so they are one datatype, tagged by \<^verbatim>\<open>type\<close>.
  \<open>NotAnObject\<close> stands for a value that fails \<^verbatim>\<open>typeof incoming === "object"\<close>.
\<close>

datatype ipc_message =
    GatewayEvent int DiscordGatewayPayload
  | ShardInfoResponse string int int
  | GatewayReady
  | SendPayload int string
  | EditStatus string
  | GetShardInfo string "string option"
  | BotReady string
  | Shutdown
  | NotAnObject

section \<open>The worker process (\<^verbatim>\<open>main\<close> and \<^verbatim>\<open>handleGatewayEvent\<close> of runtime/botProcess.ts)\<close>

datatype bot_reaction =
    ProcessExit
  | Dropped
  | HandleGatewayEvent DiscordGatewayPayload int

text \<open>The listener \<^verbatim>\<open>process.on("message", ...)\<close> of \<^verbatim>\<open>main\<close>.\<close>

definition bot_onMessage :: "RuntimeBotWorkerConfig \<Rightarrow> ipc_message \<Rightarrow> bot_reaction" where
  "bot_onMessage worker message =
     (let shardSet = set (shards worker) in
      case message of
        NotAnObject \<Rightarrow> Dropped
      | Shutdown \<Rightarrow> ProcessExit
      | GatewayEvent shardId payload \<Rightarrow>
          (if shardId \<notin> shardSet then Dropped else HandleGatewayEvent payload shardId)
      | _ \<Rightarrow> Dropped)"

text \<open>
  The handlers a bot has: \<^verbatim>\<open>bot.events.raw\<close>, \<^verbatim>\<open>bot.events.dispatchRequirements\<close> and the
  names for which \<^verbatim>\<open>bot.handlers[name]\<close> is defined. \<^verbatim>\<open>handleGatewayEvent\<close> is the list of
  the calls it makes, in order, when no handler throws; \<^verbatim>\<open>!payload.t\<close> holds for a missing
  and for an empty event name.
\<close>

record bot_handlers =
  has_raw :: bool
  has_dispatchRequirements :: bool
  handler_names :: "string list"

datatype handler_call =
    RawCall DiscordGatewayPayload int
  | DispatchRequirementsCall DiscordGatewayPayload int
  | HandlerCall string DiscordGatewayPayload int

definition handleGatewayEvent ::
  "bot_handlers \<Rightarrow> DiscordGatewayPayload \<Rightarrow> int \<Rightarrow> handler_call list" where
  "handleGatewayEvent botRef payload shardId =
     (if has_raw botRef then [RawCall payload shardId] else []) @
     (case payload_t payload of
        None \<Rightarrow> []
      | Some t \<Rightarrow>
          (if t = [] then []
           else (if has_dispatchRequirements botRef then [DispatchRequirementsCall payload shardId] else []) @
                (if t \<in> set (handler_names botRef) then [HandlerCall t payload shardId] else [])))"

definition bot_dispatch ::
  "bot_handlers \<Rightarrow> RuntimeBotWorkerConfig \<Rightarrow> ipc_message \<Rightarrow> handler_call list" where
  "bot_dispatch botRef worker message =
     (case bot_onMessage worker message of
        HandleGatewayEvent payload shardId \<Rightarrow> handleGatewayEvent botRef payload shardId
      | _ \<Rightarrow> [])"

section \<open>The shard-info request of a worker (\<^verbatim>\<open>getShardInfoFromGuild\<close>)\<close>









section \<open>The supervisor (\<^verbatim>\<open>startWorkerRuntime\<close>)\<close>

subsection \<open>State\<close>

datatype role = RestRole | BotRole RuntimeBotWorkerConfig | GatewayRole

text \<open>The two callbacks given to \<^verbatim>\<open>setTimeout\<close>: the respawn of a worker and the forced kill.\<close>

datatype timer = RespawnTimer RuntimeBotWorkerConfig | SigKillTimer pid

text \<open>What the supervisor does to the world, in the order it does it.\<close>

datatype effect =
    Fork role pid
  | Send pid ipc_message
  | SetTimeout nat timer
  | Kill pid
  | StartCommandSync nat

datatype runtime_error = UnknownBotWorker string | NoWorkerOwnsShard int

text \<open>
  An \<^verbatim>\<open>async\<close> function runs until its next \<^verbatim>\<open>await\<close> of a promise that is still pending,
  and is resumed by the event that settles the promise. An \<^verbatim>\<open>await\<close> of a promise that is
  already resolved goes on in a microtask of the same turn of the event loop, before any
  other message, exit or timer is handled; it is modelled as going on at once. A task is
  a suspended call:
  the place it waits at and the local variables its continuation reads.
  \<open>RestartAwaitKill worker child caller\<close> is \<^verbatim>\<open>restartBotWorkerById\<close> at
  \<^verbatim>\<open>await killChild(child)\<close>; \<open>caller\<close> is \<open>None\<close> for a call through \<^verbatim>\<open>restartWorker\<close> or
  \<^verbatim>\<open>restartShard\<close>, and \<open>Some rest\<close> for a call from the loop of \<^verbatim>\<open>reloadLazy\<close> with the
  workers \<open>rest\<close> still to come. The \<open>pid list\<close> of a task that waits at a
  \<^verbatim>\<open>Promise.all\<close> holds the children whose exit is still awaited; the number of a task is
  the command sync it started.
\<close>

datatype task =
    RestartAwaitKill RuntimeBotWorkerConfig pid "RuntimeBotWorkerConfig list option"
  | LazyAwaitSync nat
  | ReloadAwaitKills "pid list" nat
  | ReloadAwaitSync nat
  | FullAwaitSync nat
  | FullAwaitKills "pid list"
  | FullAwaitGateway pid
  | FullAwaitRest pid
  | StopAwaitKills "pid list"
  | StopAwaitGateway pid
  | StopAwaitRest pid

text \<open>
  The variables of the closure of \<^verbatim>\<open>startWorkerRuntime\<close>, followed by the part of the world
  its code reads and writes: the next process to be forked, the worker each child's
  listeners captured, the flags \<^verbatim>\<open>killed\<close> and \<^verbatim>\<open>exitCode !== null\<close> of the child objects,
  the pending timers, the command syncs, the suspended tasks and the effects so far.
  A child is in \<open>exited\<close> once its \<^verbatim>\<open>exit\<close> event has been handled; every exit is taken to
  carry an exit code, so \<^verbatim>\<open>exitCode !== null\<close> holds of exactly these children. A child is
  in \<open>killed\<close> once \<^verbatim>\<open>child.kill\<close> has been called on it.
\<close>

record supervisor =
  botWorkers :: "RuntimeBotWorkerConfig list"
  botChildren :: "(string \<times> pid) list"
  expectedBotWorkerShutdowns :: "string set"
  shardInfoRequests :: "string \<rightharpoonup> pid"
  shardOwner :: "int \<rightharpoonup> string"
  pendingEvents :: "(int \<times> DiscordGatewayPayload) list"
  restChild :: "pid option"
  gatewayChild :: "pid option"
  stopped :: bool
  reloading :: bool
  nextPid :: pid
  botListeners :: "pid \<rightharpoonup> RuntimeBotWorkerConfig"
  killed :: "pid set"
  exited :: "pid set"
  timers :: "(nat \<times> timer) list"
  syncsStarted :: nat
  syncsDone :: "nat set"
  tasks :: "task list"
  effects :: "effect list"

subsection \<open>Spawning and messages\<close>

definition send :: "pid \<Rightarrow> ipc_message \<Rightarrow> supervisor \<Rightarrow> supervisor" where
  "send child message s = s\<lparr>effects := effects s @ [Send child message]\<rparr>"

definition suspend :: "task \<Rightarrow> supervisor \<Rightarrow> supervisor" where
  "suspend t s = s\<lparr>tasks := tasks s @ [t]\<rparr>"

text \<open>\<^verbatim>\<open>syncCommandsInBackground(cwd, intents)\<close>: the sync runs outside; its number is returned.\<close>

definition startCommandSync :: "supervisor \<Rightarrow> nat \<times> supervisor" where
  "startCommandSync s =
     (syncsStarted s,
      s\<lparr>syncsStarted := Suc (syncsStarted s),
        effects := effects s @ [StartCommandSync (syncsStarted s)]\<rparr>)"

definition spawnRestWorker :: "supervisor \<Rightarrow> supervisor" where
  "spawnRestWorker s =
     s\<lparr>restChild := Some (nextPid s),
       nextPid := Suc (nextPid s),
       effects := effects s @ [Fork RestRole (nextPid s)]\<rparr>"

text \<open>
  \<^verbatim>\<open>spawnBotWorker\<close> forks the child, puts the two listeners on it (they capture \<open>worker\<close>)
  and registers it under the worker's id.
\<close>

definition spawnBotWorker :: "RuntimeBotWorkerConfig \<Rightarrow> supervisor \<Rightarrow> supervisor" where
  "spawnBotWorker worker s =
     s\<lparr>botChildren := AList.update (worker_id worker) (nextPid s) (botChildren s),
       botListeners := (botListeners s)(nextPid s \<mapsto> worker),
       nextPid := Suc (nextPid s),
       effects := effects s @ [Fork (BotRole worker) (nextPid s)]\<rparr>"

definition spawnGatewayWorker :: "supervisor \<Rightarrow> supervisor" where
  "spawnGatewayWorker s =
     s\<lparr>gatewayChild := Some (nextPid s),
       nextPid := Suc (nextPid s),
       effects := effects s @ [Fork GatewayRole (nextPid s)]\<rparr>"

text \<open>The loop of \<^verbatim>\<open>flushPendingEventsForWorker\<close> over \<^verbatim>\<open>pendingEvents\<close>, with \<^verbatim>\<open>keep\<close>.\<close>

fun flush_loop ::
  "string \<Rightarrow> pid \<Rightarrow> (int \<times> DiscordGatewayPayload) list \<Rightarrow> (int \<times> DiscordGatewayPayload) list \<Rightarrow>
   supervisor \<Rightarrow> supervisor" where
  "flush_loop workerId worker [] keep s = s\<lparr>pendingEvents := keep\<rparr>"
| "flush_loop workerId worker (event # rest) keep s =
     (if shardOwner s (fst event) = Some workerId
      then flush_loop workerId worker rest keep (send worker (GatewayEvent (fst event) (snd event)) s)
      else flush_loop workerId worker rest (keep @ [event]) s)"

definition flushPendingEventsForWorker :: "string \<Rightarrow> supervisor \<Rightarrow> supervisor" where
  "flushPendingEventsForWorker workerId s =
     (case map_of (botChildren s) workerId of
        None \<Rightarrow> s
      | Some worker \<Rightarrow> flush_loop workerId worker (pendingEvents s) [] s)"

definition sendGateway :: "ipc_message \<Rightarrow> supervisor \<Rightarrow> supervisor" where
  "sendGateway message s = (case gatewayChild s of None \<Rightarrow> s | Some g \<Rightarrow> send g message s)"

text \<open>The listener \<^verbatim>\<open>child.on("message", ...)\<close> that \<^verbatim>\<open>spawnBotWorker\<close> puts on \<open>child\<close>.\<close>

definition onBotMessage :: "pid \<Rightarrow> ipc_message \<Rightarrow> supervisor \<Rightarrow> supervisor" where
  "onBotMessage child incoming s =
     (case incoming of
        SendPayload shardId payload \<Rightarrow> sendGateway incoming s
      | EditStatus payload \<Rightarrow> sendGateway incoming s
      | GetShardInfo nonce guildId \<Rightarrow>
          sendGateway incoming (s\<lparr>shardInfoRequests := (shardInfoRequests s)(nonce \<mapsto> child)\<rparr>)
      | BotReady workerId \<Rightarrow> flushPendingEventsForWorker workerId s
      | _ \<Rightarrow> s)"

text \<open>
  The listener \<^verbatim>\<open>gatewayChild.on("message", ...)\<close>. In \<^verbatim>\<open>workerId ? ... : undefined\<close> the
  empty string counts as no owner.
\<close>

definition onGatewayMessage :: "ipc_message \<Rightarrow> supervisor \<Rightarrow> supervisor" where
  "onGatewayMessage incoming s =
     (case incoming of
        ShardInfoResponse nonce shardId rtt \<Rightarrow>
          (let requester = shardInfoRequests s nonce;
               s1 = s\<lparr>shardInfoRequests := (shardInfoRequests s)(nonce := None)\<rparr>
           in case requester of None \<Rightarrow> s1 | Some r \<Rightarrow> send r incoming s1)
      | GatewayEvent shardId payload \<Rightarrow>
          (let workerId = shardOwner s shardId;
               worker = (case workerId of
                           None \<Rightarrow> None
                         | Some wid \<Rightarrow> if wid = [] then None else map_of (botChildren s) wid)
           in case worker of
                None \<Rightarrow> s\<lparr>pendingEvents := pendingEvents s @ [(shardId, payload)]\<rparr>
              | Some w \<Rightarrow> send w incoming s)
      | _ \<Rightarrow> s)"

subsection \<open>Exit of a worker and its respawn\<close>

text \<open>The listener \<^verbatim>\<open>child.on("exit", ...)\<close> that \<^verbatim>\<open>spawnBotWorker\<close> puts on a child of \<open>worker\<close>.\<close>

definition onBotExit :: "RuntimeBotWorkerConfig \<Rightarrow> supervisor \<Rightarrow> supervisor" where
  "onBotExit worker s =
     (let s1 = s\<lparr>botChildren := AList.delete (worker_id worker) (botChildren s)\<rparr>;
          expected = (worker_id worker \<in> expectedBotWorkerShutdowns s1);
          s2 = s1\<lparr>expectedBotWorkerShutdowns := expectedBotWorkerShutdowns s1 - {worker_id worker}\<rparr>
      in if \<not> stopped s2 then
           (if \<not> expected \<and> \<not> reloading s2
            then s2\<lparr>timers := timers s2 @ [(250, RespawnTimer worker)],
                    effects := effects s2 @ [SetTimeout 250 (RespawnTimer worker)]\<rparr>
            else s2)
         else s2)"

text \<open>The callback of that timer.\<close>

definition respawnTimer :: "RuntimeBotWorkerConfig \<Rightarrow> supervisor \<Rightarrow> supervisor" where
  "respawnTimer worker s =
     (if stopped s \<or> map_of (botChildren s) (worker_id worker) \<noteq> None then s
      else spawnBotWorker worker s)"

subsection \<open>Stopping children\<close>

text \<open>
  \<^verbatim>\<open>killChild\<close> up to the return of its promise. The result names the child whose exit the
  promise waits for, or is \<open>None\<close> when the promise is resolved at once.
\<close>

definition killChild :: "pid option \<Rightarrow> supervisor \<Rightarrow> supervisor \<times> pid option" where
  "killChild child s =
     (case child of
        None \<Rightarrow> (s, None)
      | Some c \<Rightarrow>
          (if c \<in> killed s \<or> c \<in> exited s then (s, None)
           else (send c Shutdown
                   (s\<lparr>timers := timers s @ [(5000, SigKillTimer c)],
                      effects := effects s @ [SetTimeout 5000 (SigKillTimer c)]\<rparr>),
                 Some c)))"

text \<open>\<^verbatim>\<open>children.map((child) => killChild(child))\<close>, with the children still awaited.\<close>

fun killChildren :: "pid list \<Rightarrow> supervisor \<Rightarrow> supervisor \<times> pid list" where
  "killChildren [] s = (s, [])"
| "killChildren (c # cs) s =
     (case killChild (Some c) s of
        (s1, pending) \<Rightarrow>
          (case killChildren cs s1 of
             (s2, waiting) \<Rightarrow> (s2, (case pending of None \<Rightarrow> [] | Some p \<Rightarrow> [p]) @ waiting)))"

subsection \<open>Restart of one worker\<close>

text \<open>\<^verbatim>\<open>restartBotWorkerById\<close> after its \<^verbatim>\<open>await killChild(child)\<close>.\<close>

definition restart_finish :: "RuntimeBotWorkerConfig \<Rightarrow> supervisor \<Rightarrow> supervisor" where
  "restart_finish worker s =
     spawnBotWorker worker (s\<lparr>botChildren := AList.delete (worker_id worker) (botChildren s)\<rparr>)"

text \<open>
  \<^verbatim>\<open>restartBotWorkerById\<close> up to that \<^verbatim>\<open>await\<close>, or to its end when it does not wait. The
  second component of the result is the worker and the child it is suspended on.
\<close>

definition restartBotWorkerById ::
  "string \<Rightarrow> supervisor \<Rightarrow> runtime_error + (supervisor \<times> (RuntimeBotWorkerConfig \<times> pid) option)" where
  "restartBotWorkerById workerId s =
     (case find (\<lambda>currentWorker. worker_id currentWorker = workerId) (botWorkers s) of
        None \<Rightarrow> Inl (UnknownBotWorker workerId)
      | Some worker \<Rightarrow>
          (let child = map_of (botChildren s) workerId;
               s1 = s\<lparr>expectedBotWorkerShutdowns := insert workerId (expectedBotWorkerShutdowns s)\<rparr>
           in case child of
                None \<Rightarrow> Inr (spawnBotWorker worker s1, None)
              | Some c \<Rightarrow>
                  (case killChild (Some c) (send c Shutdown s1) of
                     (s2, None) \<Rightarrow> Inr (restart_finish worker s2, None)
                   | (s2, Some awaited) \<Rightarrow> Inr (s2, Some (worker, awaited)))))"

definition restartWorker :: "string \<Rightarrow> supervisor \<Rightarrow> runtime_error + supervisor" where
  "restartWorker workerId s =
     (case restartBotWorkerById workerId s of
        Inl e \<Rightarrow> Inl e
      | Inr (s1, None) \<Rightarrow> Inr s1
      | Inr (s1, Some (worker, child)) \<Rightarrow> Inr (suspend (RestartAwaitKill worker child None) s1))"

text \<open>\<^verbatim>\<open>restartShard\<close>: \<^verbatim>\<open>!workerId\<close> holds for no owner and for the empty id.\<close>

definition restartShard :: "int \<Rightarrow> supervisor \<Rightarrow> runtime_error + supervisor" where
  "restartShard shardId s =
     (case shardOwner s shardId of
        None \<Rightarrow> Inl (NoWorkerOwnsShard shardId)
      | Some workerId \<Rightarrow>
          (if workerId = [] then Inl (NoWorkerOwnsShard shardId) else restartWorker workerId s))"

subsection \<open>Lazy reload\<close>

text \<open>\<^verbatim>\<open>a.shards[0] ?? Number.MAX_SAFE_INTEGER\<close>\<close>

definition lowestShard :: "RuntimeBotWorkerConfig \<Rightarrow> int" where
  "lowestShard a = (case shards a of [] \<Rightarrow> 9007199254740991 | first # others \<Rightarrow> first)"

text \<open>\<^verbatim>\<open>[...botWorkers].sort((a, b) => aStart - bStart)\<close>; the sort of an array is stable.\<close>

definition workersInOrder :: "RuntimeBotWorkerConfig list \<Rightarrow> RuntimeBotWorkerConfig list" where
  "workersInOrder workers = sort_key lowestShard workers"

text \<open>
  The loop \<^verbatim>\<open>for (const worker of workersInOrder) await restartBotWorkerById(worker.id)\<close>
  from the worker it is at, up to the next \<^verbatim>\<open>await\<close> that suspends it, and
  \<^verbatim>\<open>reloading = false\<close> after its end. An exception of \<^verbatim>\<open>restartBotWorkerById\<close> ends
  \<^verbatim>\<open>reloadLazy\<close> with \<^verbatim>\<open>reloading\<close> still set.
\<close>

fun lazy_loop :: "RuntimeBotWorkerConfig list \<Rightarrow> supervisor \<Rightarrow> supervisor" where
  "lazy_loop [] s = s\<lparr>reloading := False\<rparr>"
| "lazy_loop (worker # rest) s =
     (case restartBotWorkerById (worker_id worker) s of
        Inl e \<Rightarrow> s
      | Inr (s1, None) \<Rightarrow> lazy_loop rest s1
      | Inr (s1, Some (found, child)) \<Rightarrow> suspend (RestartAwaitKill found child (Some rest)) s1)"

definition reloadLazy :: "supervisor \<Rightarrow> supervisor" where
  "reloadLazy s =
     (if stopped s then s
      else (case startCommandSync (s\<lparr>reloading := True\<rparr>) of
              (k, s1) \<Rightarrow> suspend (LazyAwaitSync k) s1))"

definition reloadLazy_afterSync :: "supervisor \<Rightarrow> supervisor" where
  "reloadLazy_afterSync s = lazy_loop (workersInOrder (botWorkers s)) s"

subsection \<open>Reload and full reload\<close>

text \<open>\<^verbatim>\<open>reload\<close> after \<^verbatim>\<open>await Promise.all(...)\<close>.\<close>

definition reload_afterKills :: "nat \<Rightarrow> supervisor \<Rightarrow> supervisor" where
  "reload_afterKills k s =
     (let s1 = fold spawnBotWorker (botWorkers s) (s\<lparr>botChildren := []\<rparr>)
      in if k \<in> syncsDone s1 then s1\<lparr>reloading := False\<rparr> else suspend (ReloadAwaitSync k) s1)"

definition reload :: "supervisor \<Rightarrow> supervisor" where
  "reload s =
     (if stopped s then s
      else (case startCommandSync (s\<lparr>reloading := True\<rparr>) of
              (k, s1) \<Rightarrow>
                (let previousChildren = map snd (botChildren s1);
                     s2 = s1\<lparr>expectedBotWorkerShutdowns :=
                              expectedBotWorkerShutdowns s1 \<union> set (map worker_id (botWorkers s1))\<rparr>;
                     s3 = fold (\<lambda>child. send child Shutdown) previousChildren s2
                 in case killChildren previousChildren s3 of
                      (s4, waiting) \<Rightarrow>
                        (if waiting = [] then reload_afterKills k s4
                         else suspend (ReloadAwaitKills waiting k) s4))))"

text \<open>\<^verbatim>\<open>fullReload\<close>, from its last \<^verbatim>\<open>await\<close> back to its first.\<close>

definition fullReload_afterRest :: "supervisor \<Rightarrow> supervisor" where
  "fullReload_afterRest s =
     (let s1 = spawnRestWorker (s\<lparr>restChild := None\<rparr>);
          s2 = fold spawnBotWorker (botWorkers s1) s1;
          s3 = spawnGatewayWorker s2
      in s3\<lparr>reloading := False\<rparr>)"

definition fullReload_afterGateway :: "supervisor \<Rightarrow> supervisor" where
  "fullReload_afterGateway s =
     (let s1 = s\<lparr>gatewayChild := None\<rparr>
      in case killChild (restChild s1) s1 of
           (s2, None) \<Rightarrow> fullReload_afterRest s2
         | (s2, Some c) \<Rightarrow> suspend (FullAwaitRest c) s2)"

definition fullReload_afterKills :: "supervisor \<Rightarrow> supervisor" where
  "fullReload_afterKills s =
     (let s1 = s\<lparr>botChildren := [], pendingEvents := [], shardInfoRequests := Map.empty\<rparr>
      in case killChild (gatewayChild s1) s1 of
           (s2, None) \<Rightarrow> fullReload_afterGateway s2
         | (s2, Some c) \<Rightarrow> suspend (FullAwaitGateway c) s2)"

definition fullReload_afterSync :: "supervisor \<Rightarrow> supervisor" where
  "fullReload_afterSync s =
     (let previousChildren = map snd (botChildren s);
          s1 = s\<lparr>expectedBotWorkerShutdowns :=
                  expectedBotWorkerShutdowns s \<union> set (map worker_id (botWorkers s))\<rparr>;
          s2 = fold (\<lambda>child. send child Shutdown) previousChildren s1
      in case killChildren previousChildren s2 of
           (s3, waiting) \<Rightarrow>
             (if waiting = [] then fullReload_afterKills s3
              else suspend (FullAwaitKills waiting) s3))"

definition fullReload :: "supervisor \<Rightarrow> supervisor" where
  "fullReload s =
     (if stopped s then s
      else (case startCommandSync (s\<lparr>reloading := True\<rparr>) of
              (k, s1) \<Rightarrow> suspend (FullAwaitSync k) s1))"

subsection \<open>Stop\<close>

definition stop_afterGateway :: "supervisor \<Rightarrow> supervisor" where
  "stop_afterGateway s =
     (case killChild (restChild s) s of
        (s1, None) \<Rightarrow> s1
      | (s1, Some c) \<Rightarrow> suspend (StopAwaitRest c) s1)"

definition stop_afterKills :: "supervisor \<Rightarrow> supervisor" where
  "stop_afterKills s =
     (let s1 = s\<lparr>botChildren := []\<rparr>
      in case killChild (gatewayChild s1) s1 of
           (s2, None) \<Rightarrow> stop_afterGateway s2
         | (s2, Some c) \<Rightarrow> suspend (StopAwaitGateway c) s2)"

definition stop :: "supervisor \<Rightarrow> supervisor" where
  "stop s =
     (if stopped s then s
      else (case killChildren (map snd (botChildren s)) (s\<lparr>stopped := True\<rparr>) of
              (s1, waiting) \<Rightarrow>
                (if waiting = [] then stop_afterKills s1
                 else suspend (StopAwaitKills waiting) s1)))"

subsection \<open>Events and the step function\<close>

text \<open>
  What a suspended task does when the child \<open>child\<close> has exited: a task that waited for it
  goes on (a \<^verbatim>\<open>Promise.all\<close> when it was its last), any other task stays suspended.
\<close>

fun resumeOnExit :: "pid \<Rightarrow> task \<Rightarrow> supervisor \<Rightarrow> supervisor" where
  "resumeOnExit child (RestartAwaitKill worker awaited caller) s =
     (if awaited = child then
        (case caller of
           None \<Rightarrow> restart_finish worker s
         | Some rest \<Rightarrow> lazy_loop rest (restart_finish worker s))
      else suspend (RestartAwaitKill worker awaited caller) s)"
| "resumeOnExit child (ReloadAwaitKills waiting k) s =
     (if removeAll child waiting = [] then reload_afterKills k s
      else suspend (ReloadAwaitKills (removeAll child waiting) k) s)"
| "resumeOnExit child (FullAwaitKills waiting) s =
     (if removeAll child waiting = [] then fullReload_afterKills s
      else suspend (FullAwaitKills (removeAll child waiting)) s)"
| "resumeOnExit child (FullAwaitGateway awaited) s =
     (if awaited = child then fullReload_afterGateway s else suspend (FullAwaitGateway awaited) s)"
| "resumeOnExit child (FullAwaitRest awaited) s =
     (if awaited = child then fullReload_afterRest s else suspend (FullAwaitRest awaited) s)"
| "resumeOnExit child (StopAwaitKills waiting) s =
     (if removeAll child waiting = [] then stop_afterKills s
      else suspend (StopAwaitKills (removeAll child waiting)) s)"
| "resumeOnExit child (StopAwaitGateway awaited) s =
     (if awaited = child then stop_afterGateway s else suspend (StopAwaitGateway awaited) s)"
| "resumeOnExit child (StopAwaitRest awaited) s =
     (if awaited = child then s else suspend (StopAwaitRest awaited) s)"
| "resumeOnExit child (LazyAwaitSync k) s = suspend (LazyAwaitSync k) s"
| "resumeOnExit child (ReloadAwaitSync k) s = suspend (ReloadAwaitSync k) s"
| "resumeOnExit child (FullAwaitSync k) s = suspend (FullAwaitSync k) s"

text \<open>What a suspended task does when the command sync \<open>k\<close> is done.\<close>

fun resumeOnSync :: "nat \<Rightarrow> task \<Rightarrow> supervisor \<Rightarrow> supervisor" where
  "resumeOnSync k (LazyAwaitSync awaited) s =
     (if awaited = k then reloadLazy_afterSync s else suspend (LazyAwaitSync awaited) s)"
| "resumeOnSync k (ReloadAwaitSync awaited) s =
     (if awaited = k then s\<lparr>reloading := False\<rparr> else suspend (ReloadAwaitSync awaited) s)"
| "resumeOnSync k (FullAwaitSync awaited) s =
     (if awaited = k then fullReload_afterSync s else suspend (FullAwaitSync awaited) s)"
| "resumeOnSync k t s = suspend t s"

text \<open>
  The exit of a child: the \<^verbatim>\<open>exit\<close> listener of \<^verbatim>\<open>spawnBotWorker\<close> when the child is a
  worker, then the \<^verbatim>\<open>once("exit")\<close> listeners of \<^verbatim>\<open>killChild\<close>, which clear their timers
  and resolve their promises, then the tasks those promises resume, in the order in which
  they were suspended. (When one exit resumes several tasks, Node runs a continuation
  behind \<^verbatim>\<open>Promise.all\<close> one microtask later than one on a bare \<^verbatim>\<open>await killChild(...)\<close>;
  all of them run in the turn of that exit, which is what the model keeps.) The exit
  listener of the gateway child only logs.
\<close>

definition childExit :: "pid \<Rightarrow> supervisor \<Rightarrow> supervisor" where
  "childExit child s =
     (if child \<in> exited s \<or> nextPid s \<le> child then s
      else
        (let s1 = s\<lparr>exited := insert child (exited s)\<rparr>;
             s2 = (case botListeners s1 child of None \<Rightarrow> s1 | Some worker \<Rightarrow> onBotExit worker s1);
             s3 = s2\<lparr>timers := filter (\<lambda>t. t \<noteq> (5000, SigKillTimer child)) (timers s2)\<rparr>
         in fold (resumeOnExit child) (tasks s3) (s3\<lparr>tasks := []\<rparr>)))"

definition commandSyncDone :: "nat \<Rightarrow> supervisor \<Rightarrow> supervisor" where
  "commandSyncDone k s =
     (if k \<in> syncsDone s \<or> syncsStarted s \<le> k then s
      else
        (let s1 = s\<lparr>syncsDone := insert k (syncsDone s)\<rparr>
         in fold (resumeOnSync k) (tasks s1) (s1\<lparr>tasks := []\<rparr>)))"

text \<open>The pending timer at position \<open>i\<close> fires.\<close>

definition timerFires :: "nat \<Rightarrow> supervisor \<Rightarrow> supervisor" where
  "timerFires i s =
     (if length (timers s) \<le> i then s
      else
        (let s1 = s\<lparr>timers := take i (timers s) @ drop (Suc i) (timers s)\<rparr>
         in case snd (timers s ! i) of
              RespawnTimer worker \<Rightarrow> respawnTimer worker s1
            | SigKillTimer child \<Rightarrow>
                s1\<lparr>killed := insert child (killed s1), effects := effects s1 @ [Kill child]\<rparr>))"

datatype api_call = Reload | ReloadLazy | FullReload | RestartWorker string | RestartShard int | Stop

datatype event =
    Call api_call
  | GatewayMessage ipc_message
  | BotMessage pid ipc_message
  | ChildExit pid
  | TimerFires nat
  | CommandSyncDone nat

text \<open>
  One turn of the event loop. A call of the control API that throws leaves the state as it
  was (its promise is rejected); a message of a child runs the listener only when
  \<^verbatim>\<open>spawnBotWorker\<close> has put one on that child.
\<close>

fun step :: "event \<Rightarrow> supervisor \<Rightarrow> supervisor" where
  "step (Call Reload) s = reload s"
| "step (Call ReloadLazy) s = reloadLazy s"
| "step (Call FullReload) s = fullReload s"
| "step (Call (RestartWorker workerId)) s =
     (case restartWorker workerId s of Inl e \<Rightarrow> s | Inr s1 \<Rightarrow> s1)"
| "step (Call (RestartShard shardId)) s =
     (case restartShard shardId s of Inl e \<Rightarrow> s | Inr s1 \<Rightarrow> s1)"
| "step (Call Stop) s = stop s"
| "step (GatewayMessage incoming) s = onGatewayMessage incoming s"
| "step (BotMessage child incoming) s =
     (if botListeners s child = None then s else onBotMessage child incoming s)"
| "step (ChildExit child) s = childExit child s"
| "step (TimerFires i) s = timerFires i s"
| "step (CommandSyncDone k) s = commandSyncDone k s"

fun run :: "event list \<Rightarrow> supervisor \<Rightarrow> supervisor" where
  "run [] s = s"
| "run (e # es) s = run es (step e s)"

subsection \<open>Start\<close>

text \<open>The nested iteration that fills \<^verbatim>\<open>shardOwner\<close>: a later worker overwrites an earlier one.\<close>

definition buildShardOwner :: "RuntimeBotWorkerConfig list \<Rightarrow> (int \<rightharpoonup> string)" where
  "buildShardOwner workers =
     fold (\<lambda>worker owner. fold (\<lambda>shardId m. m(shardId \<mapsto> worker_id worker)) (shards worker) owner)
       workers Map.empty"

text \<open>
  The body of \<^verbatim>\<open>startWorkerRuntime\<close> from the plan \<^verbatim>\<open>runtime.cluster.botWorkers\<close> on: the
  initial command sync, the ownership map, then the three kinds of children.
\<close>

definition startSupervisor :: "RuntimeBotWorkerConfig list \<Rightarrow> supervisor" where
  "startSupervisor workers =
     (let s0 = \<lparr>botWorkers = workers, botChildren = [], expectedBotWorkerShutdowns = {},
                shardInfoRequests = Map.empty, shardOwner = buildShardOwner workers,
                pendingEvents = [], restChild = None, gatewayChild = None,
                stopped = False, reloading = False, nextPid = 0, botListeners = Map.empty,
                killed = {}, exited = {}, timers = [], syncsStarted = 0, syncsDone = {},
                tasks = [], effects = []\<rparr>;
          s1 = snd (startCommandSync s0);
          s2 = spawnRestWorker s1;
          s3 = fold spawnBotWorker workers s2
      in spawnGatewayWorker s3)"

subsection \<open>Auxiliary notions for the proofs\<close>

text \<open>Two states have the same plan: the worker list and the ownership map.\<close>

definition samePlan :: "supervisor \<Rightarrow> supervisor \<Rightarrow> bool" where
  "samePlan s s' \<longleftrightarrow> shardOwner s' = shardOwner s \<and> botWorkers s' = botWorkers s"

text \<open>
  The child the gateway listener finds for a shard: the child registered under the id of
  the shard's owner, none when the shard has no owner or the owner's id is empty.
\<close>

definition ownerChild :: "supervisor \<Rightarrow> int \<Rightarrow> pid option" where
  "ownerChild s shardId =
     (case shardOwner s shardId of
        None \<Rightarrow> None
      | Some wid \<Rightarrow> if wid = [] then None else map_of (botChildren s) wid)"

text \<open>
  The state in which a lazy reload is studied: the ids of the plan are distinct, every
  worker of the plan has a registered child that is alive and carries the listeners of
  that worker, no call of the control API is suspended, the next command sync is not done
  yet, and the supervisor is not stopped.
\<close>

definition allRunning :: "supervisor \<Rightarrow> bool" where
  "allRunning s \<longleftrightarrow>
     distinct (map worker_id (botWorkers s))
     \<and> list_all (\<lambda>w. case map_of (botChildren s) (worker_id w) of
                        None \<Rightarrow> False
                      | Some c \<Rightarrow> c \<notin> killed s \<and> c \<notin> exited s \<and> c < nextPid s
                                  \<and> botListeners s c = Some w) (botWorkers s)
     \<and> tasks s = [] \<and> syncsStarted s \<notin> syncsDone s \<and> \<not> stopped s"

text \<open>The child registered for a worker.\<close>

definition childOf :: "supervisor \<Rightarrow> RuntimeBotWorkerConfig \<Rightarrow> pid" where
  "childOf s w = (case map_of (botChildren s) (worker_id w) of None \<Rightarrow> 0 | Some c \<Rightarrow> c)"

text \<open>
  What a lazy reload does to the world for a list of workers with their children, when
  the first replacement is forked as \<open>fresh\<close>: per worker two shutdown messages around the
  kill timer, then the fork of the replacement.
\<close>

fun lazy_effects :: "(RuntimeBotWorkerConfig \<times> pid) list \<Rightarrow> pid \<Rightarrow> effect list" where
  "lazy_effects [] fresh = []"
| "lazy_effects ((worker, child) # rest) fresh =
     [Send child Shutdown, SetTimeout 5000 (SigKillTimer child), Send child Shutdown,
      Fork (BotRole worker) fresh] @ lazy_effects rest (Suc fresh)"

text \<open>The events of a lazy reload during which nothing else happens.\<close>

definition quietLazyReload :: "supervisor \<Rightarrow> event list" where
  "quietLazyReload s =
     [Call ReloadLazy, CommandSyncDone (syncsStarted s)]
     @ map (\<lambda>w. ChildExit (childOf s w)) (workersInOrder (botWorkers s))"


text \<open>
  Two relations between an earlier and a later state, for the frame lemmas: no suspended
  task has been dropped; the effects have only been extended and no process number is given
  out twice.
\<close>

definition keepsTasks :: "supervisor \<Rightarrow> supervisor \<Rightarrow> bool" where
  "keepsTasks s s' \<longleftrightarrow> set (tasks s) \<subseteq> set (tasks s')"

definition grows :: "supervisor \<Rightarrow> supervisor \<Rightarrow> bool" where
  "grows s s' \<longleftrightarrow> (\<exists>later. effects s' = effects s @ later) \<and> nextPid s \<le> nextPid s'"

text \<open>
  The tasks that the exit of a child resumes, or whose list of awaited children it
  shortens, as \<open>resumeOnExit\<close> has it; the tasks that the end of a command sync resumes, as
  \<open>resumeOnSync\<close> has it.
\<close>

fun awaitsExit :: "task \<Rightarrow> pid \<Rightarrow> bool" where
  "awaitsExit (RestartAwaitKill worker awaited caller) child = (awaited = child)"
| "awaitsExit (ReloadAwaitKills waiting k) child = (child \<in> set waiting \<or> waiting = [])"
| "awaitsExit (FullAwaitKills waiting) child = (child \<in> set waiting \<or> waiting = [])"
| "awaitsExit (StopAwaitKills waiting) child = (child \<in> set waiting \<or> waiting = [])"
| "awaitsExit (FullAwaitGateway awaited) child = (awaited = child)"
| "awaitsExit (FullAwaitRest awaited) child = (awaited = child)"
| "awaitsExit (StopAwaitGateway awaited) child = (awaited = child)"
| "awaitsExit (StopAwaitRest awaited) child = (awaited = child)"
| "awaitsExit (LazyAwaitSync k) child = False"
| "awaitsExit (ReloadAwaitSync k) child = False"
| "awaitsExit (FullAwaitSync k) child = False"

fun awaitsSync :: "task \<Rightarrow> nat \<Rightarrow> bool" where
  "awaitsSync (LazyAwaitSync awaited) k = (awaited = k)"
| "awaitsSync (ReloadAwaitSync awaited) k = (awaited = k)"
| "awaitsSync (FullAwaitSync awaited) k = (awaited = k)"
| "awaitsSync t k = False"

text \<open>
  The part of \<open>childExit\<close> before the tasks are resumed: the child is marked as exited, the
  \<^verbatim>\<open>exit\<close> listener of \<^verbatim>\<open>spawnBotWorker\<close> runs when the child is a worker, and the listeners of
  \<^verbatim>\<open>killChild\<close> clear their timers.
\<close>

definition exitListeners :: "pid \<Rightarrow> supervisor \<Rightarrow> supervisor" where
  "exitListeners child s =
     (let s1 = s\<lparr>exited := insert child (exited s)\<rparr>;
          s2 = (case botListeners s1 child of None \<Rightarrow> s1 | Some worker \<Rightarrow> onBotExit worker s1)
      in s2\<lparr>timers := filter (\<lambda>t. t \<noteq> (5000, SigKillTimer child)) (timers s2)\<rparr>)"

text \<open>
  The invariant of the register of worker processes: a registered process has been forked,
  has not exited, and carries the listeners of a worker with the id it is registered under
  (so that its exit removes it from the register); no process exits before it is forked.
\<close>

definition registeredAlive :: "supervisor \<Rightarrow> bool" where
  "registeredAlive s \<longleftrightarrow>
     (\<forall>wid c. map_of (botChildren s) wid = Some c \<longrightarrow>
        c \<notin> exited s \<and> c < nextPid s
        \<and> (\<exists>worker. botListeners s c = Some worker \<and> worker_id worker = wid))
     \<and> (\<forall>c\<in>exited s. c < nextPid s)"
section \<open>Properties of the planner\<close>

lemma range_loop_upto: "range_loop i l acc = acc @ [i..l]"
proof (induction i l acc rule: range_loop.induct)
  case (1 i l acc)
  show ?case
  proof (cases "i \<le> l")
    case True
    then show ?thesis
      using "1.IH" by (subst range_loop.simps) (simp add: upto_rec1)
  next
    case False
    then show ?thesis
      by (subst range_loop.simps) simp
  qed
qed

lemma shards_loop_upto: "shards_loop c n off acc = acc @ [c + off..c + n - 1]"
proof (induction c n off acc rule: shards_loop.induct)
  case (1 c n off acc)
  show ?case
  proof (cases "off < n")
    case True
    then have "[c + off..c + n - 1] = (c + off) # [c + (off + 1)..c + n - 1]"
      by (subst upto_rec1) (simp_all add: algebra_simps)
    then show ?thesis
      using True "1.IH" by (subst shards_loop.simps) simp
  next
    case False
    then show ?thesis
      by (subst shards_loop.simps) simp
  qed
qed

lemma workers_loop_closed:
  "workers_loop N b r i c acc =
     acc @ map (\<lambda>k. \<lparr>worker_id = ''bot-'' @ string_of_int k,
                      shards = [cursorAt b r i c k..cursorAt b r i c k + shardCountAt b r k - 1]\<rparr>) [i..N - 1]"
proof (induction N b r i c acc rule: workers_loop.induct)
  case (1 N b r i c acc)
  show ?case
  proof (cases "i < N")
    case True
    have step: "[i..N - 1] = i # [i + 1..N - 1]"
      using True by (simp add: upto_rec1)
    have eq: "\<And>k. i + 1 \<le> k \<Longrightarrow> cursorAt b r (i + 1) (c + shardCountAt b r i) k = cursorAt b r i c k"
      by (auto simp: cursorAt_def shardCountAt_def algebra_simps min_def)
    have st0: "cursorAt b r i c i = c" by (simp add: cursorAt_def)
    show ?thesis
      apply (subst workers_loop.simps)
      using True "1.IH"[OF True refl refl]
      apply (simp add: Let_def step shards_loop_upto st0 shardCountAt_def[symmetric])
      using eq apply (auto simp: shardCountAt_def)
      done
  next
    case False
    then show ?thesis
      by (subst workers_loop.simps) simp
  qed
qed

lemma upto_append: "i \<le> j + 1 \<Longrightarrow> j \<le> k \<Longrightarrow> [i..j] @ [j + 1..k] = [i..k]"
proof (cases "i \<le> j")
  case True
  assume "j \<le> k"
  with True show ?thesis by (simp add: upto_split2[of i j k])
next
  case False
  assume "i \<le> j + 1"
  with False have "i = j + 1" by simp
  then show ?thesis by simp
qed

lemma concat_ranges:
  "(\<forall>k. 0 \<le> k \<and> k < int n \<longrightarrow> f k \<le> f (k + 1)) \<Longrightarrow>
   concat (map (\<lambda>k. [f k..f (k + 1) - 1]) [0..int n - 1]) = [f 0..f (int n) - 1] \<and> f 0 \<le> f (int n)"
proof (induction n)
  case 0
  then show ?case by simp
next
  case (Suc n)
  then have IH: "concat (map (\<lambda>k. [f k..f (k + 1) - 1]) [0..int n - 1]) = [f 0..f (int n) - 1]"
    and mono: "f 0 \<le> f (int n)" by auto
  have last: "f (int n) \<le> f (int n + 1)" using Suc.prems by simp
  have "[0..int (Suc n) - 1] = [0..int n - 1] @ [int n]"
    by (simp add: upto_rec2)
  then have "concat (map (\<lambda>k. [f k..f (k + 1) - 1]) [0..int (Suc n) - 1])
      = [f 0..f (int n) - 1] @ [f (int n) - 1 + 1..f (int n + 1) - 1]"
    using IH by simp
  also have "\<dots> = [f 0..f (int n + 1) - 1]"
    using mono last by (intro upto_append) simp_all
  finally show ?case using mono last by (simp add: add.commute)
qed

lemma smod_nonneg: "0 \<le> a \<Longrightarrow> 0 < b \<Longrightarrow> (a::int) smod b = a mod b"
  by (simp add: smod_int_alt_def sgn_if)

lemma in_one_of_concat:
  "distinct (concat xss) \<Longrightarrow> x \<in> set (concat xss) \<Longrightarrow> length (filter (\<lambda>xs. x \<in> set xs) xss) = 1"
  by (induction xss) (auto simp: filter_empty_conv)

lemma ceiling_floor_div:
  fixes T N :: int
  assumes "0 < N"
  shows "\<lfloor>real_of_int T / real_of_int N\<rfloor> = T div N"
    and "T mod N \<noteq> 0 \<Longrightarrow> \<lceil>real_of_int T / real_of_int N\<rceil> = T div N + 1"
  using assms by (simp_all add: floor_divide_of_int_eq ceiling_divide_eq_div zdiv_zminus1_eq_if)


text \<open>
  Claim C3. For a cluster range \<open>firstShardId..lastShardId\<close> of \<open>T \<ge> 1\<close> shards and a positive
  worker count \<open>n\<close>, the even split returns \<open>n\<close> workers whose shard lists, one after the
  other, are exactly the range in ascending order; so every shard of the range is in the
  list of exactly one worker, each list is a contiguous ascending range, the workers at
  the indices below \<open>T mod n\<close> have \<open>\<lceil>T / n\<rceil>\<close> shards and the others \<open>\<lfloor>T / n\<rfloor>\<close>, and worker
  \<open>i\<close> is named \<^verbatim>\<open>bot-i\<close>. The planner is a function of its arguments alone (the result
  does not even depend on the cluster count), so a second run returns the same plan.
\<close>

theorem even_split_partition:
  assumes range: "firstShardId \<le> lastShardId" and pos: "0 < n"
  shows "\<exists>ws. normalizeBotWorkers (Some (BotWorkersNumber n)) firstShardId lastShardId clusterCount = Inr ws
     \<and> length ws = nat n
     \<and> concat (map shards ws) = [firstShardId..lastShardId]
     \<and> (\<forall>sh\<in>{firstShardId..lastShardId}. length (filter (\<lambda>w. sh \<in> set (shards w)) ws) = 1)
     \<and> (\<forall>i<nat n. int (length (shards (ws ! i))) =
           (if int i < (lastShardId - firstShardId + 1) mod n
            then \<lceil>real_of_int (lastShardId - firstShardId + 1) / real_of_int n\<rceil>
            else \<lfloor>real_of_int (lastShardId - firstShardId + 1) / real_of_int n\<rfloor>))
     \<and> (\<forall>w\<in>set ws. \<exists>a b. shards w = [a..b])
     \<and> (\<forall>i<nat n. worker_id (ws ! i) = ''bot-'' @ string_of_int (int i))
     \<and> (\<forall>otherCount. normalizeBotWorkers (Some (BotWorkersNumber n)) firstShardId lastShardId otherCount = Inr ws)"
proof -
  define T where "T = lastShardId - firstShardId + 1"
  define b where "b = T div n"
  define r where "r = T mod n"
  define f where "f = (\<lambda>k. firstShardId + k * b + min k r)"
  define mk where "mk = (\<lambda>k. \<lparr>worker_id = ''bot-'' @ string_of_int k,
     shards = [cursorAt b r 0 firstShardId k..cursorAt b r 0 firstShardId k + shardCountAt b r k - 1]\<rparr>)"
  define ws where "ws = map mk [0..n - 1]"
  have T1: "1 \<le> T" using range by (simp add: T_def)
  have b0: "0 \<le> b" using T1 pos by (simp add: b_def pos_imp_zdiv_nonneg_iff)
  have r0: "0 \<le> r" and rn: "r < n" using pos by (simp_all add: r_def)
  have Tsplit: "T = n * b + r" by (simp add: b_def r_def)
  have smod: "T smod n = r" using T1 pos by (simp add: smod_nonneg r_def)
  have res: "normalizeBotWorkers (Some (BotWorkersNumber n)) firstShardId lastShardId clusterCount = Inr ws"
    using pos
    by (simp add: normalizeBotWorkers_def Let_def workers_loop_closed ws_def mk_def
        T_def[symmetric] b_def[symmetric] smod)
  have len: "length ws = nat n" by (simp add: ws_def)
  have nth: "ws ! i = mk (int i)" if "i < nat n" for i
    using that by (simp add: ws_def)
  have stf: "cursorAt b r 0 firstShardId k = f k" for k
    using r0 by (simp add: cursorAt_def f_def)
  have fnext: "f k + shardCountAt b r k = f (k + 1)" if "0 \<le> k" for k
    using that by (auto simp: f_def shardCountAt_def algebra_simps min_def)
  have shards_mk: "shards (mk k) = [f k..f (k + 1) - 1]" if "0 \<le> k" for k
    using fnext[OF that] by (simp add: mk_def stf)
  have "map shards ws = map (\<lambda>k. [f k..f (k + 1) - 1]) [0..int (nat n) - 1]"
    using pos by (simp add: ws_def shards_mk)
  moreover have "\<forall>k. 0 \<le> k \<and> k < int (nat n) \<longrightarrow> f k \<le> f (k + 1)"
    using b0 by (auto simp: f_def min_def algebra_simps)
  ultimately have "concat (map shards ws) = [f 0..f (int (nat n)) - 1]"
    using concat_ranges[of "nat n" f] by simp
  moreover have "f 0 = firstShardId" using r0 by (simp add: f_def)
  moreover have "f (int (nat n)) - 1 = lastShardId"
    using pos rn Tsplit by (simp add: f_def min_def T_def algebra_simps)
  ultimately have cover: "concat (map shards ws) = [firstShardId..lastShardId]" by simp
  have once: "\<forall>sh\<in>{firstShardId..lastShardId}. length (filter (\<lambda>w. sh \<in> set (shards w)) ws) = 1"
  proof
    fix sh assume "sh \<in> {firstShardId..lastShardId}"
    then have "sh \<in> set (concat (map shards ws))" by (simp add: cover)
    moreover have "distinct (concat (map shards ws))" by (simp add: cover)
    ultimately have "length (filter (\<lambda>xs. sh \<in> set xs) (map shards ws)) = 1"
      by (rule in_one_of_concat[rotated])
    then show "length (filter (\<lambda>w. sh \<in> set (shards w)) ws) = 1"
      by (simp add: filter_map o_def)
  qed
  have sizes: "\<forall>i<nat n. int (length (shards (ws ! i))) =
           (if int i < T mod n then \<lceil>real_of_int T / real_of_int n\<rceil>
            else \<lfloor>real_of_int T / real_of_int n\<rfloor>)"
  proof (intro allI impI)
    fix i assume i: "i < nat n"
    have "int (length (shards (ws ! i))) = shardCountAt b r (int i)"
      using b0 by (simp add: nth[OF i] mk_def shardCountAt_def)
    also have "\<dots> = (if int i < T mod n then \<lceil>real_of_int T / real_of_int n\<rceil>
            else \<lfloor>real_of_int T / real_of_int n\<rfloor>)"
    proof (cases "int i < T mod n")
      case True
      then have "T mod n \<noteq> 0" by auto
      then show ?thesis
        using True ceiling_floor_div(2)[OF pos] by (simp add: shardCountAt_def b_def r_def)
    next
      case False
      then show ?thesis
        using ceiling_floor_div(1)[OF pos] by (simp add: shardCountAt_def b_def r_def)
    qed
    finally show "int (length (shards (ws ! i))) =
           (if int i < T mod n then \<lceil>real_of_int T / real_of_int n\<rceil>
            else \<lfloor>real_of_int T / real_of_int n\<rfloor>)" .
  qed
  have contiguous: "\<forall>w\<in>set ws. \<exists>a b. shards w = [a..b]"
    by (auto simp: ws_def mk_def)
  have ids: "\<forall>i<nat n. worker_id (ws ! i) = ''bot-'' @ string_of_int (int i)"
    by (simp add: nth mk_def)
  have same: "\<forall>otherCount. normalizeBotWorkers (Some (BotWorkersNumber n)) firstShardId lastShardId otherCount = Inr ws"
    using res pos by (simp add: normalizeBotWorkers_def)
  show ?thesis
    using res len cover once sizes contiguous ids same unfolding T_def by blast
qed

theorem even_split_partition_witness:
  "normalizeBotWorkers (Some (BotWorkersNumber 3)) 0 6 1 =
     Inr [\<lparr>worker_id = ''bot-0'', shards = [0, 1, 2]\<rparr>,
          \<lparr>worker_id = ''bot-1'', shards = [3, 4]\<rparr>,
          \<lparr>worker_id = ''bot-2'', shards = [5, 6]\<rparr>]
   \<and> (\<exists>ws. normalizeBotWorkers (Some (BotWorkersNumber 3)) 0 6 1 = Inr ws \<and> length ws = 3
         \<and> concat (map shards ws) = [0, 1, 2, 3, 4, 5, 6])"
proof -
  have ev: "normalizeBotWorkers (Some (BotWorkersNumber 3)) 0 6 1 =
     Inr [\<lparr>worker_id = ''bot-0'', shards = [0, 1, 2]\<rparr>,
          \<lparr>worker_id = ''bot-1'', shards = [3, 4]\<rparr>,
          \<lparr>worker_id = ''bot-2'', shards = [5, 6]\<rparr>]"
    by (simp add: normalizeBotWorkers_def Let_def workers_loop.simps shards_loop.simps
        string_of_int_def string_of_nat.simps smod_int_alt_def)
  have up: "[0..6::int] = [0, 1, 2, 3, 4, 5, 6]" by (simp add: upto.simps)
  from even_split_partition[of 0 6 3 1] ev up show ?thesis by auto
qed

lemma map_workers_reversed_fails:
  "w \<in> set ws \<Longrightarrow> cfg_shards w = ShardsRange rangeStart rangeEnd \<Longrightarrow> rangeEnd < rangeStart \<Longrightarrow> isl (map_workers ws)"
  by (induction ws) (auto simp: expandShardRange_def split: sum.splits)

lemma map_workers_all_valid:
  "\<forall>v\<in>set ws. \<not> isl (expandShardRange (cfg_shards v)) \<Longrightarrow>
   map_workers ws = Inr (map (\<lambda>v. \<lparr>worker_id = cfg_id v, shards = projr (expandShardRange (cfg_shards v))\<rparr>) ws)"
  by (induction ws) (auto split: sum.splits)

lemma map_workers_first_failure:
  "\<forall>v\<in>set before. \<not> isl (expandShardRange (cfg_shards v)) \<Longrightarrow>
   expandShardRange (cfg_shards w) = Inl e \<Longrightarrow>
   map_workers (before @ w # rest) = Inl e"
  by (induction before) (auto split: sum.splits)

lemma expand_valid_range:
  "a \<le> b \<Longrightarrow> expandShardRange (ShardsRange a b) = Inr [a..b]"
  by (simp add: expandShardRange_def range_loop_upto)

text \<open>
  Claim C9. A range \<^verbatim>\<open>{start, end}\<close> with \<^verbatim>\<open>end < start\<close> makes \<^verbatim>\<open>expandShardRange\<close> throw the
  error that names the range, and the planner fails on every explicit worker list that
  holds such a range: it returns no plan, empty or partial, and when the workers before
  the reversed range are valid the planner's error is the one that names the range. A range
  with \<^verbatim>\<open>end >= start\<close> expands to the full inclusive list \<open>[start..end]\<close>, and the planner,
  given an explicit worker list all of whose shard entries are valid, returns one worker
  per entry, in order, with the entry's id and its expanded list; for a list of ranges
  that is \<open>[start..end]\<close> for every worker.
\<close>

theorem reversed_range_is_error:
  "(rangeEnd < rangeStart \<longrightarrow>
      expandShardRange (ShardsRange rangeStart rangeEnd) = Inl (InvalidShardRange rangeStart rangeEnd)
      \<and> (\<forall>(ws::SnowcordBotWorkerConfig list) w firstShardId lastShardId clusterCount.
            w \<in> set ws \<and> cfg_shards w = ShardsRange rangeStart rangeEnd \<longrightarrow>
            isl (normalizeBotWorkers (Some (BotWorkersList ws)) firstShardId lastShardId clusterCount))
      \<and> (\<forall>(before::SnowcordBotWorkerConfig list) w rest firstShardId lastShardId clusterCount.
            cfg_shards w = ShardsRange rangeStart rangeEnd
            \<and> (\<forall>v\<in>set before. \<not> isl (expandShardRange (cfg_shards v))) \<longrightarrow>
            normalizeBotWorkers (Some (BotWorkersList (before @ w # rest))) firstShardId lastShardId clusterCount
              = Inl (InvalidShardRange rangeStart rangeEnd)))
   \<and> (rangeStart \<le> rangeEnd \<longrightarrow>
        expandShardRange (ShardsRange rangeStart rangeEnd) = Inr [rangeStart..rangeEnd]
      \<and> (\<forall>(ws::SnowcordBotWorkerConfig list) w firstShardId lastShardId clusterCount.
            w \<in> set ws \<and> cfg_shards w = ShardsRange rangeStart rangeEnd
            \<and> (\<forall>v\<in>set ws. \<not> isl (expandShardRange (cfg_shards v))) \<longrightarrow>
            normalizeBotWorkers (Some (BotWorkersList ws)) firstShardId lastShardId clusterCount
              = Inr (map (\<lambda>v. \<lparr>worker_id = cfg_id v, shards = projr (expandShardRange (cfg_shards v))\<rparr>) ws)
            \<and> \<lparr>worker_id = cfg_id w, shards = [rangeStart..rangeEnd]\<rparr>
                \<in> set (map (\<lambda>v. \<lparr>worker_id = cfg_id v, shards = projr (expandShardRange (cfg_shards v))\<rparr>) ws)))
   \<and> (\<forall>(ws::SnowcordBotWorkerConfig list) firstShardId lastShardId clusterCount.
        ws \<noteq> [] \<and> (\<forall>v\<in>set ws. \<exists>a b. cfg_shards v = ShardsRange a b \<and> a \<le> b) \<longrightarrow>
        normalizeBotWorkers (Some (BotWorkersList ws)) firstShardId lastShardId clusterCount
          = Inr (map (\<lambda>v. \<lparr>worker_id = cfg_id v,
                            shards = [range_start (cfg_shards v)..range_end (cfg_shards v)]\<rparr>) ws))"
proof (intro conjI impI allI)
  assume "rangeEnd < rangeStart"
  then show "expandShardRange (ShardsRange rangeStart rangeEnd) = Inl (InvalidShardRange rangeStart rangeEnd)"
    by (simp add: expandShardRange_def)
next
  fix ws :: "SnowcordBotWorkerConfig list" and w firstShardId lastShardId clusterCount
  assume rev: "rangeEnd < rangeStart" and w: "w \<in> set ws \<and> cfg_shards w = ShardsRange rangeStart rangeEnd"
  then have "ws \<noteq> []" by auto
  moreover have "isl (map_workers ws)"
    using w rev map_workers_reversed_fails by blast
  ultimately show "isl (normalizeBotWorkers (Some (BotWorkersList ws)) firstShardId lastShardId clusterCount)"
    by (simp add: normalizeBotWorkers_def)
next
  fix before :: "SnowcordBotWorkerConfig list" and w :: SnowcordBotWorkerConfig and rest firstShardId lastShardId clusterCount
  assume rev: "rangeEnd < rangeStart"
    and w: "cfg_shards w = ShardsRange rangeStart rangeEnd
            \<and> (\<forall>v\<in>set before. \<not> isl (expandShardRange (cfg_shards v)))"
  have "expandShardRange (cfg_shards w) = Inl (InvalidShardRange rangeStart rangeEnd)"
    using rev w by (simp add: expandShardRange_def)
  then have "map_workers (before @ w # rest) = Inl (InvalidShardRange rangeStart rangeEnd)"
    using w map_workers_first_failure by blast
  then show "normalizeBotWorkers (Some (BotWorkersList (before @ w # rest))) firstShardId lastShardId clusterCount
              = Inl (InvalidShardRange rangeStart rangeEnd)"
    by (simp add: normalizeBotWorkers_def)
next
  assume "rangeStart \<le> rangeEnd"
  then show "expandShardRange (ShardsRange rangeStart rangeEnd) = Inr [rangeStart..rangeEnd]"
    by (rule expand_valid_range)
next
  fix ws :: "SnowcordBotWorkerConfig list" and w firstShardId lastShardId clusterCount
  assume ok: "rangeStart \<le> rangeEnd"
    and w: "w \<in> set ws \<and> cfg_shards w = ShardsRange rangeStart rangeEnd
            \<and> (\<forall>v\<in>set ws. \<not> isl (expandShardRange (cfg_shards v)))"
  then have "ws \<noteq> []" by auto
  then show "normalizeBotWorkers (Some (BotWorkersList ws)) firstShardId lastShardId clusterCount
              = Inr (map (\<lambda>v. \<lparr>worker_id = cfg_id v, shards = projr (expandShardRange (cfg_shards v))\<rparr>) ws)"
    using w by (simp add: normalizeBotWorkers_def map_workers_all_valid)
  have "\<lparr>worker_id = cfg_id w, shards = [rangeStart..rangeEnd]\<rparr>
      = (\<lambda>v. \<lparr>worker_id = cfg_id v, shards = projr (expandShardRange (cfg_shards v))\<rparr>) w"
    using w ok by (simp add: expand_valid_range)
  then show "\<lparr>worker_id = cfg_id w, shards = [rangeStart..rangeEnd]\<rparr>
                \<in> set (map (\<lambda>v. \<lparr>worker_id = cfg_id v, shards = projr (expandShardRange (cfg_shards v))\<rparr>) ws)"
    using w by (metis (no_types, lifting) image_eqI list.set_map)
next
  fix ws :: "SnowcordBotWorkerConfig list" and firstShardId lastShardId clusterCount
  assume ws: "ws \<noteq> [] \<and> (\<forall>v\<in>set ws. \<exists>a b. cfg_shards v = ShardsRange a b \<and> a \<le> b)"
  then have valid: "\<forall>v\<in>set ws. \<not> isl (expandShardRange (cfg_shards v))"
    by (auto simp: expand_valid_range)
  have "map (\<lambda>v. \<lparr>worker_id = cfg_id v, shards = projr (expandShardRange (cfg_shards v))\<rparr>) ws
      = map (\<lambda>v. \<lparr>worker_id = cfg_id v,
                    shards = [range_start (cfg_shards v)..range_end (cfg_shards v)]\<rparr>) ws"
    using ws by (intro map_cong) (auto simp: expand_valid_range)
  then show "normalizeBotWorkers (Some (BotWorkersList ws)) firstShardId lastShardId clusterCount
          = Inr (map (\<lambda>v. \<lparr>worker_id = cfg_id v,
                            shards = [range_start (cfg_shards v)..range_end (cfg_shards v)]\<rparr>) ws)"
    using ws valid by (simp add: normalizeBotWorkers_def map_workers_all_valid)
qed

theorem reversed_range_is_error_witness:
  "expandShardRange (ShardsRange 5 2) = Inl (InvalidShardRange 5 2)
   \<and> normalizeBotWorkers
        (Some (BotWorkersList [\<lparr>cfg_id = ''a'', cfg_shards = ShardsArray [0, 1]\<rparr>,
                               \<lparr>cfg_id = ''b'', cfg_shards = ShardsRange 5 2\<rparr>])) 0 5 1
      = Inl (InvalidShardRange 5 2)
   \<and> expandShardRange (ShardsRange 2 5) = Inr [2, 3, 4, 5]
   \<and> normalizeBotWorkers
        (Some (BotWorkersList [\<lparr>cfg_id = ''a'', cfg_shards = ShardsRange 0 1\<rparr>,
                               \<lparr>cfg_id = ''b'', cfg_shards = ShardsRange 2 5\<rparr>])) 0 5 1
      = Inr [\<lparr>worker_id = ''a'', shards = [0, 1]\<rparr>, \<lparr>worker_id = ''b'', shards = [2, 3, 4, 5]\<rparr>]"
proof -
  have up: "[2..5::int] = [2, 3, 4, 5]" "[0..1::int] = [0, 1]" by (simp_all add: upto.simps)
  have rev: "expandShardRange (ShardsRange 5 2) = Inl (InvalidShardRange 5 2)
      \<and> (\<forall>(before::SnowcordBotWorkerConfig list) w rest firstShardId lastShardId clusterCount.
            cfg_shards w = ShardsRange 5 2
            \<and> (\<forall>v\<in>set before. \<not> isl (expandShardRange (cfg_shards v))) \<longrightarrow>
            normalizeBotWorkers (Some (BotWorkersList (before @ w # rest))) firstShardId lastShardId clusterCount
              = Inl (InvalidShardRange 5 2))"
    using reversed_range_is_error[of 2 5] by simp
  have fwd: "expandShardRange (ShardsRange 2 5) = Inr [2..5]
      \<and> (\<forall>(ws::SnowcordBotWorkerConfig list) firstShardId lastShardId clusterCount.
        ws \<noteq> [] \<and> (\<forall>v\<in>set ws. \<exists>a b. cfg_shards v = ShardsRange a b \<and> a \<le> b) \<longrightarrow>
        normalizeBotWorkers (Some (BotWorkersList ws)) firstShardId lastShardId clusterCount
          = Inr (map (\<lambda>v. \<lparr>worker_id = cfg_id v,
                            shards = [range_start (cfg_shards v)..range_end (cfg_shards v)]\<rparr>) ws))"
    using reversed_range_is_error[of 5 2] by simp
  have bad: "normalizeBotWorkers
        (Some (BotWorkersList ([\<lparr>cfg_id = ''a'', cfg_shards = ShardsArray [0, 1]\<rparr>]
                               @ \<lparr>cfg_id = ''b'', cfg_shards = ShardsRange 5 2\<rparr> # []))) 0 5 1
      = Inl (InvalidShardRange 5 2)"
    by (rule rev[THEN conjunct2, rule_format]) (simp add: expandShardRange_def)
  have good: "normalizeBotWorkers
        (Some (BotWorkersList [\<lparr>cfg_id = ''a'', cfg_shards = ShardsRange 0 1\<rparr>,
                               \<lparr>cfg_id = ''b'', cfg_shards = ShardsRange 2 5\<rparr>])) 0 5 1
      = Inr (map (\<lambda>v. \<lparr>worker_id = cfg_id v,
                            shards = [range_start (cfg_shards v)..range_end (cfg_shards v)]\<rparr>)
              [\<lparr>cfg_id = ''a'', cfg_shards = ShardsRange 0 1\<rparr>,
               \<lparr>cfg_id = ''b'', cfg_shards = ShardsRange 2 5\<rparr>])"
    by (rule fwd[THEN conjunct2, rule_format]) simp
  show ?thesis
    using rev fwd bad good up by (simp del: upto.simps)
qed

section \<open>Properties of the worker process\<close>

text \<open>
  Claim C10. A worker hands a gateway event to \<^verbatim>\<open>handleGatewayEvent\<close>, which calls its handlers,
  if and only if the shard of the event is in the worker's shard set; no other message is
  dispatched, and an event of a shard outside the set calls nothing.
\<close>

theorem worker_dispatches_owned_shards_only:
  "bot_onMessage worker (GatewayEvent shardId payload) =
     (if shardId \<in> set (shards worker) then HandleGatewayEvent payload shardId else Dropped)
   \<and> (bot_onMessage worker message = HandleGatewayEvent payload shardId
        \<longleftrightarrow> message = GatewayEvent shardId payload \<and> shardId \<in> set (shards worker))
   \<and> (shardId \<in> set (shards worker) \<longrightarrow>
        bot_dispatch botRef worker (GatewayEvent shardId payload) = handleGatewayEvent botRef payload shardId)
   \<and> (shardId \<notin> set (shards worker) \<longrightarrow>
        bot_dispatch botRef worker (GatewayEvent shardId payload) = [])"
  by (cases message) (auto simp: bot_onMessage_def bot_dispatch_def)

theorem worker_dispatches_owned_shards_only_witness:
  "bot_dispatch \<lparr>has_raw = True, has_dispatchRequirements = False, handler_names = [''READY'']\<rparr>
      \<lparr>worker_id = ''bot-0'', shards = [0, 1]\<rparr> (GatewayEvent 1 (Payload (Some ''READY'') ''d''))
     = [RawCall (Payload (Some ''READY'') ''d'') 1, HandlerCall ''READY'' (Payload (Some ''READY'') ''d'') 1]
   \<and> bot_dispatch \<lparr>has_raw = True, has_dispatchRequirements = False, handler_names = [''READY'']\<rparr>
      \<lparr>worker_id = ''bot-0'', shards = [0, 1]\<rparr> (GatewayEvent 2 (Payload (Some ''READY'') ''d'')) = []"
  using worker_dispatches_owned_shards_only[of "\<lparr>worker_id = ''bot-0'', shards = [0, 1]\<rparr>" 1
          "Payload (Some ''READY'') ''d''" "GatewayEvent 1 (Payload (Some ''READY'') ''d'')"
          "\<lparr>has_raw = True, has_dispatchRequirements = False, handler_names = [''READY'']\<rparr>"]
        worker_dispatches_owned_shards_only[of "\<lparr>worker_id = ''bot-0'', shards = [0, 1]\<rparr>" 2
          "Payload (Some ''READY'') ''d''" "GatewayEvent 2 (Payload (Some ''READY'') ''d'')"
          "\<lparr>has_raw = True, has_dispatchRequirements = False, handler_names = [''READY'']\<rparr>"]
  by (simp add: handleGatewayEvent_def)

section \<open>Properties of the supervisor\<close>

text \<open>The definitions a run from a concrete start state is evaluated with.\<close>

lemmas eval_defs =
  startSupervisor_def buildShardOwner_def startCommandSync_def spawnRestWorker_def
  spawnBotWorker_def spawnGatewayWorker_def send_def suspend_def
  flushPendingEventsForWorker_def sendGateway_def onBotMessage_def onGatewayMessage_def
  onBotExit_def respawnTimer_def killChild_def restart_finish_def restartBotWorkerById_def
  restartWorker_def restartShard_def lowestShard_def workersInOrder_def reloadLazy_def
  reloadLazy_afterSync_def reload_afterKills_def reload_def fullReload_afterRest_def
  fullReload_afterGateway_def fullReload_afterKills_def fullReload_afterSync_def
  fullReload_def stop_afterGateway_def stop_afterKills_def stop_def childExit_def
  commandSyncDone_def timerFires_def ownerChild_def Let_def

subsection \<open>The plan and the ownership map never change\<close>

lemma samePlan_refl [simp]: "samePlan s s"
  by (simp add: samePlan_def)

lemma samePlan_trans: "samePlan s s1 \<Longrightarrow> samePlan s1 s2 \<Longrightarrow> samePlan s s2"
  by (simp add: samePlan_def)

lemma samePlan_send [simp]: "samePlan s (send c m s')  \<longleftrightarrow> samePlan s s'"
  by (simp add: samePlan_def send_def)

lemma samePlan_suspend [simp]: "samePlan s (suspend t s') \<longleftrightarrow> samePlan s s'"
  by (simp add: samePlan_def suspend_def)

lemma samePlan_spawnBotWorker [simp]: "samePlan s (spawnBotWorker w s') \<longleftrightarrow> samePlan s s'"
  by (simp add: samePlan_def spawnBotWorker_def)

lemma samePlan_spawnRestWorker [simp]: "samePlan s (spawnRestWorker s') \<longleftrightarrow> samePlan s s'"
  by (simp add: samePlan_def spawnRestWorker_def)

lemma samePlan_spawnGatewayWorker [simp]: "samePlan s (spawnGatewayWorker s') \<longleftrightarrow> samePlan s s'"
  by (simp add: samePlan_def spawnGatewayWorker_def)

lemma samePlan_updates [simp]:
  "samePlan s (s'\<lparr>botChildren := a\<rparr>) \<longleftrightarrow> samePlan s s'"
  "samePlan s (s'\<lparr>expectedBotWorkerShutdowns := b\<rparr>) \<longleftrightarrow> samePlan s s'"
  "samePlan s (s'\<lparr>shardInfoRequests := c\<rparr>) \<longleftrightarrow> samePlan s s'"
  "samePlan s (s'\<lparr>pendingEvents := d\<rparr>) \<longleftrightarrow> samePlan s s'"
  "samePlan s (s'\<lparr>restChild := e\<rparr>) \<longleftrightarrow> samePlan s s'"
  "samePlan s (s'\<lparr>gatewayChild := f\<rparr>) \<longleftrightarrow> samePlan s s'"
  "samePlan s (s'\<lparr>stopped := g\<rparr>) \<longleftrightarrow> samePlan s s'"
  "samePlan s (s'\<lparr>reloading := h\<rparr>) \<longleftrightarrow> samePlan s s'"
  "samePlan s (s'\<lparr>killed := i\<rparr>) \<longleftrightarrow> samePlan s s'"
  "samePlan s (s'\<lparr>exited := j\<rparr>) \<longleftrightarrow> samePlan s s'"
  "samePlan s (s'\<lparr>timers := k\<rparr>) \<longleftrightarrow> samePlan s s'"
  "samePlan s (s'\<lparr>syncsDone := l\<rparr>) \<longleftrightarrow> samePlan s s'"
  "samePlan s (s'\<lparr>tasks := m\<rparr>) \<longleftrightarrow> samePlan s s'"
  "samePlan s (s'\<lparr>effects := n\<rparr>) \<longleftrightarrow> samePlan s s'"
  by (simp_all add: samePlan_def)

lemma samePlan_startCommandSync [simp]: "samePlan s (snd (startCommandSync s')) \<longleftrightarrow> samePlan s s'"
  by (simp add: samePlan_def startCommandSync_def)

lemma samePlan_fold_spawn [simp]: "samePlan s (fold spawnBotWorker ws s') \<longleftrightarrow> samePlan s s'"
  by (induction ws arbitrary: s') simp_all

lemma samePlan_fold_send [simp]: "samePlan s (fold (\<lambda>c. send c m) cs s') \<longleftrightarrow> samePlan s s'"
  by (induction cs arbitrary: s') simp_all

lemma samePlan_flush_loop [simp]: "samePlan s (flush_loop wid w evs keep s') \<longleftrightarrow> samePlan s s'"
  by (induction evs arbitrary: keep s') simp_all

lemma samePlan_flush [simp]: "samePlan s (flushPendingEventsForWorker wid s') \<longleftrightarrow> samePlan s s'"
  by (simp add: flushPendingEventsForWorker_def split: option.splits)

lemma samePlan_sendGateway [simp]: "samePlan s (sendGateway m s') \<longleftrightarrow> samePlan s s'"
  by (simp add: sendGateway_def split: option.splits)

lemma samePlan_onBotMessage [simp]: "samePlan s (onBotMessage c m s') \<longleftrightarrow> samePlan s s'"
  by (simp add: onBotMessage_def split: ipc_message.splits)

lemma samePlan_onGatewayMessage [simp]: "samePlan s (onGatewayMessage m s') \<longleftrightarrow> samePlan s s'"
  by (simp add: onGatewayMessage_def Let_def split: ipc_message.splits option.splits)

lemma samePlan_onBotExit [simp]: "samePlan s (onBotExit w s') \<longleftrightarrow> samePlan s s'"
  by (simp add: onBotExit_def Let_def)

lemma samePlan_respawnTimer [simp]: "samePlan s (respawnTimer w s') \<longleftrightarrow> samePlan s s'"
  by (simp add: respawnTimer_def)

lemma samePlan_killChild [simp]: "samePlan s (fst (killChild c s')) \<longleftrightarrow> samePlan s s'"
  by (simp add: killChild_def split: option.splits)

lemma samePlan_killChildren [simp]: "samePlan s (fst (killChildren cs s')) \<longleftrightarrow> samePlan s s'"
proof (induction cs arbitrary: s')
  case Nil
  show ?case by simp
next
  case (Cons c cs)
  have "samePlan s (fst (killChildren cs (fst (killChild (Some c) s')))) \<longleftrightarrow> samePlan s s'"
    by (simp add: Cons.IH)
  then show ?case
    by (simp add: split_def)
qed

lemma samePlan_restart_finish [simp]: "samePlan s (restart_finish w s') \<longleftrightarrow> samePlan s s'"
  by (simp add: restart_finish_def)

lemma samePlan_restartBotWorkerById:
  "restartBotWorkerById wid s' = Inr (s1, r) \<Longrightarrow> samePlan s s1 \<longleftrightarrow> samePlan s s'"
  unfolding restartBotWorkerById_def Let_def
  apply (simp split: option.splits prod.splits)
   apply (metis fst_conv samePlan_killChild samePlan_send samePlan_updates(2) samePlan_restart_finish samePlan_spawnBotWorker)+
  done


lemma samePlan_restartWorker:
  "restartWorker wid s' = Inr s1 \<Longrightarrow> samePlan s s1 \<longleftrightarrow> samePlan s s'"
  unfolding restartWorker_def
  by (auto split: sum.splits option.splits prod.splits simp: samePlan_restartBotWorkerById)

lemma samePlan_lazy_loop [simp]: "samePlan s (lazy_loop ws s') \<longleftrightarrow> samePlan s s'"
proof (induction ws arbitrary: s')
  case Nil
  show ?case by simp
next
  case (Cons w ws)
  show ?case
    by (auto split: sum.splits option.splits prod.splits
        simp: samePlan_restartBotWorkerById Cons.IH)
qed

lemma samePlan_reloadLazy [simp]: "samePlan s (reloadLazy s') \<longleftrightarrow> samePlan s s'"
  by (simp add: reloadLazy_def split_def)

lemma samePlan_reload_afterKills [simp]: "samePlan s (reload_afterKills k s') \<longleftrightarrow> samePlan s s'"
  by (simp add: reload_afterKills_def Let_def)

lemma samePlan_reload [simp]: "samePlan s (reload s') \<longleftrightarrow> samePlan s s'"
  by (simp add: reload_def split_def Let_def)

lemma samePlan_fullReload_afterRest [simp]: "samePlan s (fullReload_afterRest s') \<longleftrightarrow> samePlan s s'"
  by (simp add: fullReload_afterRest_def Let_def)

lemma case_killChild_fst:
  "(case killChild c s of (s2, None) \<Rightarrow> f s2 | (s2, Some p) \<Rightarrow> g p s2) =
   (case snd (killChild c s) of None \<Rightarrow> f (fst (killChild c s)) | Some p \<Rightarrow> g p (fst (killChild c s)))"
  by (simp add: split_def)

lemma samePlan_fullReload_afterGateway [simp]: "samePlan s (fullReload_afterGateway s') \<longleftrightarrow> samePlan s s'"
  by (simp add: fullReload_afterGateway_def Let_def case_killChild_fst split: option.splits)

lemma samePlan_fullReload_afterKills [simp]: "samePlan s (fullReload_afterKills s') \<longleftrightarrow> samePlan s s'"
  by (simp add: fullReload_afterKills_def Let_def case_killChild_fst split: option.splits)

lemma samePlan_fullReload_afterSync [simp]: "samePlan s (fullReload_afterSync s') \<longleftrightarrow> samePlan s s'"
  by (simp add: fullReload_afterSync_def Let_def split_def)

lemma samePlan_fullReload [simp]: "samePlan s (fullReload s') \<longleftrightarrow> samePlan s s'"
  by (simp add: fullReload_def split_def)

lemma samePlan_stop_afterGateway [simp]: "samePlan s (stop_afterGateway s') \<longleftrightarrow> samePlan s s'"
  by (simp add: stop_afterGateway_def case_killChild_fst split: option.splits)

lemma samePlan_stop_afterKills [simp]: "samePlan s (stop_afterKills s') \<longleftrightarrow> samePlan s s'"
  by (simp add: stop_afterKills_def Let_def case_killChild_fst split: option.splits)

lemma samePlan_stop [simp]: "samePlan s (stop s') \<longleftrightarrow> samePlan s s'"
  by (simp add: stop_def split_def)

lemma samePlan_resumeOnExit [simp]: "samePlan s (resumeOnExit c t s') \<longleftrightarrow> samePlan s s'"
  by (cases t) (simp_all add: reloadLazy_afterSync_def split: option.splits)

lemma samePlan_resumeOnSync [simp]: "samePlan s (resumeOnSync k t s') \<longleftrightarrow> samePlan s s'"
  by (cases t) (simp_all add: reloadLazy_afterSync_def)

lemma samePlan_fold_resumeOnExit [simp]: "samePlan s (fold (resumeOnExit c) ts s') \<longleftrightarrow> samePlan s s'"
  by (induction ts arbitrary: s') simp_all

lemma samePlan_fold_resumeOnSync [simp]: "samePlan s (fold (resumeOnSync k) ts s') \<longleftrightarrow> samePlan s s'"
  by (induction ts arbitrary: s') simp_all

lemma samePlan_childExit [simp]: "samePlan s (childExit c s') \<longleftrightarrow> samePlan s s'"
  by (simp add: childExit_def Let_def split: option.splits)

lemma samePlan_commandSyncDone [simp]: "samePlan s (commandSyncDone k s') \<longleftrightarrow> samePlan s s'"
  by (simp add: commandSyncDone_def Let_def)

lemma samePlan_timerFires [simp]: "samePlan s (timerFires i s') \<longleftrightarrow> samePlan s s'"
  by (simp add: timerFires_def Let_def split: timer.splits)

lemma samePlan_step [simp]: "samePlan s (step e s') \<longleftrightarrow> samePlan s s'"
proof (cases e)
  case (Call c)
  then show ?thesis
    by (cases c)
       (auto simp: restartShard_def samePlan_restartWorker split: sum.splits option.splits)
qed simp_all

lemma samePlan_run [simp]: "samePlan s (run es s') \<longleftrightarrow> samePlan s s'"
  by (induction es arbitrary: s') simp_all

lemma start_plan:
  "shardOwner (startSupervisor workers) = buildShardOwner workers"
  "botWorkers (startSupervisor workers) = workers"
proof -
  define s0 where "s0 = \<lparr>botWorkers = workers, botChildren = [], expectedBotWorkerShutdowns = {},
                shardInfoRequests = Map.empty, shardOwner = buildShardOwner workers,
                pendingEvents = [], restChild = None, gatewayChild = None,
                stopped = False, reloading = False, nextPid = 0, botListeners = Map.empty,
                killed = {}, exited = {}, timers = [], syncsStarted = 0, syncsDone = {},
                tasks = [], effects = []\<rparr>"
  have "samePlan s0 (startSupervisor workers)"
    by (simp add: startSupervisor_def Let_def s0_def[symmetric])
  then show "shardOwner (startSupervisor workers) = buildShardOwner workers"
    "botWorkers (startSupervisor workers) = workers"
    by (simp_all add: samePlan_def s0_def)
qed

lemma reachable_plan:
  "shardOwner (run es (startSupervisor workers)) = buildShardOwner workers"
  "botWorkers (run es (startSupervisor workers)) = workers"
proof -
  have "samePlan (startSupervisor workers) (run es (startSupervisor workers))" by simp
  then show "shardOwner (run es (startSupervisor workers)) = buildShardOwner workers"
    "botWorkers (run es (startSupervisor workers)) = workers"
    by (simp_all add: samePlan_def start_plan)
qed

lemma fold_owner_other:
  "shardId \<notin> set shs \<Longrightarrow> fold (\<lambda>sh m. m(sh \<mapsto> v)) shs m shardId = m shardId"
  by (induction shs arbitrary: m) auto

lemma buildShardOwner_fold_None:
  "\<forall>w\<in>set workers. shardId \<notin> set (shards w) \<Longrightarrow>
   fold (\<lambda>worker owner. fold (\<lambda>sh m. m(sh \<mapsto> worker_id worker)) (shards worker) owner) workers m shardId
     = m shardId"
  by (induction workers arbitrary: m) (simp_all add: fold_owner_other)

lemma buildShardOwner_unowned:
  "\<forall>w\<in>set workers. shardId \<notin> set (shards w) \<Longrightarrow> buildShardOwner workers shardId = None"
  by (simp add: buildShardOwner_def buildShardOwner_fold_None)

subsection \<open>Restart of a shard nobody owns\<close>

text \<open>
  Claim C8. When no worker of the plan has \<open>shardId\<close> among its shards, then in every state the
  supervisor reaches from its start, \<^verbatim>\<open>restartShard(shardId)\<close> throws \<^verbatim>\<open>No worker owns shard\<close>
  before its first \<^verbatim>\<open>await\<close>, and the call leaves the whole state as it was: no child is
  forked, no message or signal is sent, no timer is set.
\<close>

theorem restartShard_unowned_rejected:
  assumes "\<forall>w\<in>set workers. shardId \<notin> set (shards w)"
  shows "restartShard shardId (run es (startSupervisor workers)) = Inl (NoWorkerOwnsShard shardId)
       \<and> step (Call (RestartShard shardId)) (run es (startSupervisor workers)) = run es (startSupervisor workers)"
  using buildShardOwner_unowned[OF assms]
  by (simp add: restartShard_def reachable_plan)


theorem restartShard_unowned_rejected_witness:
  "restartShard 7 (run [ChildExit 1, TimerFires 0]
       (startSupervisor [\<lparr>worker_id = ''bot-0'', shards = [0, 1]\<rparr>])) = Inl (NoWorkerOwnsShard 7)
   \<and> step (Call (RestartShard 7)) (run [ChildExit 1, TimerFires 0]
       (startSupervisor [\<lparr>worker_id = ''bot-0'', shards = [0, 1]\<rparr>]))
     = run [ChildExit 1, TimerFires 0] (startSupervisor [\<lparr>worker_id = ''bot-0'', shards = [0, 1]\<rparr>])"
proof -
  have unowned: "\<forall>w\<in>set [\<lparr>worker_id = ''bot-0'', shards = [0, 1]\<rparr>]. (7::int) \<notin> set (shards w)"
    by simp
  show ?thesis
    by (rule restartShard_unowned_rejected[OF unowned])
qed

subsection \<open>Buffering and flushing of gateway events\<close>



lemma ownerChild_pending [simp]: "ownerChild (s\<lparr>pendingEvents := evs\<rparr>) shardId = ownerChild s shardId"
  by (simp add: ownerChild_def split: option.splits)





subsection \<open>Respawn after an unexpected exit\<close>

text \<open>
  The two turns of the event loop, from a state in which no call of the control API is
  suspended: the exit of the child, then the firing of the timer the exit listener set.
\<close>

lemma unexpected_exit_run:
  assumes "botListeners s child = Some worker" "child \<notin> exited s" "child < nextPid s" "tasks s = []"
    and "\<not> stopped s" "\<not> reloading s" "worker_id worker \<notin> expectedBotWorkerShutdowns s"
  shows "effects (run [ChildExit child,
                       TimerFires (length (filter (\<lambda>t. t \<noteq> (5000, SigKillTimer child)) (timers s)))] s)
           = effects s @ [SetTimeout 250 (RespawnTimer worker), Fork (BotRole worker) (nextPid s)]"
  using assms
  by (simp add: childExit_def onBotExit_def timerFires_def respawnTimer_def spawnBotWorker_def
      Let_def nth_append AList.delete_conv')

text \<open>
  Claim C7. When a child of \<open>worker\<close> exits while the supervisor is neither stopped nor
  reloading and the worker's id is not in \<^verbatim>\<open>expectedBotWorkerShutdowns\<close>, the exit listener
  sets a timer of 250 ms that carries the same \<open>worker\<close>; when the timer fires on the state
  the listener left, it forks a child with that same configuration and registers it
  under the worker's id. The timer's callback forks in every later state that is not
  stopped and has no child registered under that id, and does nothing otherwise. An exit
  whose id is in the expected set removes the id from the set, sets no timer and has no
  effect on the world. From a state in which no call of the control API is suspended, the
  two events (the exit of the child, the firing of that timer) add to the effects exactly
  the timer and the fork of the same configuration.
\<close>

theorem unexpected_exit_respawns:
  "(\<not> stopped s \<and> \<not> reloading s \<and> worker_id worker \<notin> expectedBotWorkerShutdowns s \<longrightarrow>
      onBotExit worker s
        = s\<lparr>botChildren := AList.delete (worker_id worker) (botChildren s),
             timers := timers s @ [(250, RespawnTimer worker)],
             effects := effects s @ [SetTimeout 250 (RespawnTimer worker)]\<rparr>
      \<and> respawnTimer worker (onBotExit worker s) = spawnBotWorker worker (onBotExit worker s)
      \<and> effects (respawnTimer worker (onBotExit worker s))
           = effects s @ [SetTimeout 250 (RespawnTimer worker), Fork (BotRole worker) (nextPid s)]
      \<and> map_of (botChildren (respawnTimer worker (onBotExit worker s))) (worker_id worker)
           = Some (nextPid s))
   \<and> (worker_id worker \<in> expectedBotWorkerShutdowns s \<longrightarrow>
        onBotExit worker s
          = s\<lparr>botChildren := AList.delete (worker_id worker) (botChildren s),
               expectedBotWorkerShutdowns := expectedBotWorkerShutdowns s - {worker_id worker}\<rparr>)
   \<and> respawnTimer worker later
        = (if stopped later \<or> map_of (botChildren later) (worker_id worker) \<noteq> None then later
           else later\<lparr>botChildren := AList.update (worker_id worker) (nextPid later) (botChildren later),
                  botListeners := (botListeners later)(nextPid later \<mapsto> worker),
                  nextPid := Suc (nextPid later),
                  effects := effects later @ [Fork (BotRole worker) (nextPid later)]\<rparr>)
   \<and> (botListeners s child = Some worker \<and> child \<notin> exited s \<and> child < nextPid s \<and> tasks s = []
        \<and> \<not> stopped s \<and> \<not> reloading s \<and> worker_id worker \<notin> expectedBotWorkerShutdowns s \<longrightarrow>
        effects (run [ChildExit child,
                      TimerFires (length (filter (\<lambda>t. t \<noteq> (5000, SigKillTimer child)) (timers s)))] s)
          = effects s @ [SetTimeout 250 (RespawnTimer worker), Fork (BotRole worker) (nextPid s)])"
proof -
  have handlers: "(\<not> stopped s \<and> \<not> reloading s \<and> worker_id worker \<notin> expectedBotWorkerShutdowns s \<longrightarrow>
      onBotExit worker s
        = s\<lparr>botChildren := AList.delete (worker_id worker) (botChildren s),
             timers := timers s @ [(250, RespawnTimer worker)],
             effects := effects s @ [SetTimeout 250 (RespawnTimer worker)]\<rparr>
      \<and> respawnTimer worker (onBotExit worker s) = spawnBotWorker worker (onBotExit worker s)
      \<and> effects (respawnTimer worker (onBotExit worker s))
           = effects s @ [SetTimeout 250 (RespawnTimer worker), Fork (BotRole worker) (nextPid s)]
      \<and> map_of (botChildren (respawnTimer worker (onBotExit worker s))) (worker_id worker)
           = Some (nextPid s))
   \<and> (worker_id worker \<in> expectedBotWorkerShutdowns s \<longrightarrow>
        onBotExit worker s
          = s\<lparr>botChildren := AList.delete (worker_id worker) (botChildren s),
               expectedBotWorkerShutdowns := expectedBotWorkerShutdowns s - {worker_id worker}\<rparr>)
   \<and> respawnTimer worker later
        = (if stopped later \<or> map_of (botChildren later) (worker_id worker) \<noteq> None then later
           else later\<lparr>botChildren := AList.update (worker_id worker) (nextPid later) (botChildren later),
                  botListeners := (botListeners later)(nextPid later \<mapsto> worker),
                  nextPid := Suc (nextPid later),
                  effects := effects later @ [Fork (BotRole worker) (nextPid later)]\<rparr>)"
    by (auto simp: onBotExit_def respawnTimer_def spawnBotWorker_def Let_def
        AList.delete_conv' AList.update_conv')
  show ?thesis
    using handlers unexpected_exit_run[of s child worker] by blast
qed


theorem unexpected_exit_respawns_witness:
  "effects (run [ChildExit 1, TimerFires 0] (startSupervisor [\<lparr>worker_id = ''bot-0'', shards = [0, 1]\<rparr>]))
     = [StartCommandSync 0, Fork RestRole 0,
        Fork (BotRole \<lparr>worker_id = ''bot-0'', shards = [0, 1]\<rparr>) 1, Fork GatewayRole 2,
        SetTimeout 250 (RespawnTimer \<lparr>worker_id = ''bot-0'', shards = [0, 1]\<rparr>),
        Fork (BotRole \<lparr>worker_id = ''bot-0'', shards = [0, 1]\<rparr>) 3]
   \<and> effects (run [Call (RestartWorker ''bot-0''), ChildExit 1]
               (startSupervisor [\<lparr>worker_id = ''bot-0'', shards = [0, 1]\<rparr>]))
     = [StartCommandSync 0, Fork RestRole 0,
        Fork (BotRole \<lparr>worker_id = ''bot-0'', shards = [0, 1]\<rparr>) 1, Fork GatewayRole 2,
        Send 1 Shutdown, SetTimeout 5000 (SigKillTimer 1), Send 1 Shutdown,
        Fork (BotRole \<lparr>worker_id = ''bot-0'', shards = [0, 1]\<rparr>) 3]
   \<and> timers (run [Call (RestartWorker ''bot-0''), ChildExit 1]
               (startSupervisor [\<lparr>worker_id = ''bot-0'', shards = [0, 1]\<rparr>])) = []"
proof -
  define w where "w = \<lparr>worker_id = ''bot-0'', shards = [0::int, 1]\<rparr>"
  define running where "running = (startSupervisor [w])\<lparr>exited := {1}\<rparr>"
  have idle: "\<not> stopped running \<and> \<not> reloading running \<and> worker_id w \<notin> expectedBotWorkerShutdowns running"
    by (simp add: running_def w_def eval_defs)
  have "effects (respawnTimer w (onBotExit w running))
           = effects running @ [SetTimeout 250 (RespawnTimer w), Fork (BotRole w) (nextPid running)]"
    using unexpected_exit_respawns[of running w running] idle by blast
  moreover have "effects running = [StartCommandSync 0, Fork RestRole 0, Fork (BotRole w) 1, Fork GatewayRole 2]"
    "nextPid running = 3"
    by (simp_all add: running_def w_def eval_defs)
  moreover have "effects (run [ChildExit 1, TimerFires 0] (startSupervisor [w]))
      = effects (respawnTimer w (onBotExit w running))"
    by (simp add: running_def w_def eval_defs)
  ultimately show ?thesis
    by (simp add: w_def eval_defs)
qed

subsection \<open>Timeout of a shard-info request\<close>




subsection \<open>The reloading flag\<close>








subsection \<open>Forks after stop\<close>

text \<open>
  Once \<^verbatim>\<open>stopped\<close> is set, the exit listener of a worker sets no timer and a respawn timer
  that fires forks nothing.
\<close>

lemma stopped_exit_never_respawns:
  "stopped s \<Longrightarrow> effects (onBotExit worker s) = effects s \<and> timers (onBotExit worker s) = timers s
     \<and> nextPid (onBotExit worker s) = nextPid s \<and> respawnTimer worker s = s"
  by (simp add: onBotExit_def respawnTimer_def Let_def)

text \<open>
  \<^verbatim>\<open>restartBotWorkerById\<close> has no such guard: for a worker of the plan without a registered
  child it forks at once, stopped or not.
\<close>

lemma restart_forks_when_stopped:
  "find (\<lambda>x. worker_id x = workerId) (botWorkers s) = Some worker \<Longrightarrow>
   map_of (botChildren s) workerId = None \<Longrightarrow>
   restartWorker workerId s =
     Inr (spawnBotWorker worker
            (s\<lparr>expectedBotWorkerShutdowns := insert workerId (expectedBotWorkerShutdowns s)\<rparr>))"
  by (simp add: restartWorker_def restartBotWorkerById_def Let_def)

text \<open>
  Claim C6 does not hold of \<^verbatim>\<open>restartBotWorkerById\<close>, which never reads \<^verbatim>\<open>stopped\<close>. A
  restart of \<^verbatim>\<open>bot-0\<close> waits for the exit of child 1 when \<^verbatim>\<open>stop()\<close> is called; the exit
  arrives after \<^verbatim>\<open>stopped\<close> is set; the exit listener respawns nothing, but the restart
  goes on and forks child 3, whose handle \<^verbatim>\<open>stop\<close> then drops with
  \<^verbatim>\<open>botChildren.clear()\<close> without a shutdown. A \<^verbatim>\<open>restartWorker\<close> called after \<^verbatim>\<open>stop\<close> has
  finished forks as well.
\<close>

theorem restart_in_flight_forks_after_stop:
  "stopped (run [Call (RestartWorker ''bot-0''), Call Stop]
       (startSupervisor [\<lparr>worker_id = ''bot-0'', shards = [0]\<rparr>]))
   \<and> effects (run [Call (RestartWorker ''bot-0''), Call Stop, ChildExit 1]
       (startSupervisor [\<lparr>worker_id = ''bot-0'', shards = [0]\<rparr>]))
     = effects (run [Call (RestartWorker ''bot-0''), Call Stop]
         (startSupervisor [\<lparr>worker_id = ''bot-0'', shards = [0]\<rparr>]))
       @ [Fork (BotRole \<lparr>worker_id = ''bot-0'', shards = [0]\<rparr>) 3,
          SetTimeout 5000 (SigKillTimer 2), Send 2 Shutdown]
   \<and> botChildren (run [Call (RestartWorker ''bot-0''), Call Stop, ChildExit 1]
       (startSupervisor [\<lparr>worker_id = ''bot-0'', shards = [0]\<rparr>])) = []
   \<and> effects (run [Call Stop, ChildExit 1, ChildExit 2, ChildExit 0, Call (RestartWorker ''bot-0'')]
       (startSupervisor [\<lparr>worker_id = ''bot-0'', shards = [0]\<rparr>]))
     = effects (run [Call Stop, ChildExit 1, ChildExit 2, ChildExit 0]
         (startSupervisor [\<lparr>worker_id = ''bot-0'', shards = [0]\<rparr>]))
       @ [Fork (BotRole \<lparr>worker_id = ''bot-0'', shards = [0]\<rparr>) 3]"
  by (simp add: eval_defs)

subsection \<open>A lazy reload that runs undisturbed\<close>

text \<open>
  One round of the loop of \<^verbatim>\<open>reloadLazy\<close> when the worker has a live child: the loop sends
  the shutdown and suspends; the exit of the child resumes it, the replacement is forked
  and the loop goes on with the next worker in the same turn.
\<close>

lemma lazy_loop_running:
  assumes found: "find (\<lambda>x. worker_id x = worker_id w) (botWorkers s) = Some w"
    and child: "map_of (botChildren s) (worker_id w) = Some c"
    and alive: "c \<notin> killed s" "c \<notin> exited s"
  shows "lazy_loop (w # ws) s =
     s\<lparr>expectedBotWorkerShutdowns := insert (worker_id w) (expectedBotWorkerShutdowns s),
       timers := timers s @ [(5000, SigKillTimer c)],
       effects := effects s @ [Send c Shutdown, SetTimeout 5000 (SigKillTimer c), Send c Shutdown],
       tasks := tasks s @ [RestartAwaitKill w c (Some ws)]\<rparr>"
  using assms
  by (simp add: restartBotWorkerById_def killChild_def send_def suspend_def Let_def)

lemma exit_resumes_lazy_loop:
  assumes task: "tasks s = [RestartAwaitKill w c (Some ws)]"
    and listener: "botListeners s c = Some w"
    and alive: "c \<notin> exited s" "c < nextPid s"
    and expected: "worker_id w \<in> expectedBotWorkerShutdowns s"
  shows "step (ChildExit c) s =
     lazy_loop ws
       (s\<lparr>botChildren := AList.update (worker_id w) (nextPid s) (AList.delete (worker_id w) (botChildren s)),
          expectedBotWorkerShutdowns := expectedBotWorkerShutdowns s - {worker_id w},
          nextPid := Suc (nextPid s),
          botListeners := (botListeners s)(nextPid s \<mapsto> w),
          exited := insert c (exited s),
          timers := filter (\<lambda>t. t \<noteq> (5000, SigKillTimer c)) (timers s),
          tasks := [],
          effects := effects s @ [Fork (BotRole w) (nextPid s)]\<rparr>)"
  using assms
  apply (simp add: childExit_def onBotExit_def restart_finish_def spawnBotWorker_def Let_def
      AList.delete_idem)
  apply (intro conjI impI arg_cong[where f = "lazy_loop ws"])
   apply (rule supervisor.equality; simp)+
  done


lemma quiet_lazy_loop:
  assumes "distinct (map worker_id ws)"
    and "\<forall>w\<in>set ws. find (\<lambda>x. worker_id x = worker_id w) (botWorkers s) = Some w"
    and "\<forall>w\<in>set ws. \<exists>c. map_of (botChildren s) (worker_id w) = Some c \<and> c \<notin> killed s
             \<and> c \<notin> exited s \<and> c < nextPid s \<and> botListeners s c = Some w"
    and "tasks s = []"
  shows "effects (run (map (\<lambda>w. ChildExit (childOf s w)) ws) (lazy_loop ws s))
           = effects s @ lazy_effects (map (\<lambda>w. (w, childOf s w)) ws) (nextPid s)
         \<and> \<not> reloading (run (map (\<lambda>w. ChildExit (childOf s w)) ws) (lazy_loop ws s))
         \<and> tasks (run (map (\<lambda>w. ChildExit (childOf s w)) ws) (lazy_loop ws s)) = []"
  using assms
proof (induction ws arbitrary: s)
  case Nil
  then show ?case by simp
next
  case (Cons w ws)
  from Cons.prems(3) obtain c where c: "map_of (botChildren s) (worker_id w) = Some c"
      "c \<notin> killed s" "c \<notin> exited s" "c < nextPid s" "botListeners s c = Some w"
    by auto
  have found: "find (\<lambda>x. worker_id x = worker_id w) (botWorkers s) = Some w"
    using Cons.prems(2) by simp
  define sa where "sa = s\<lparr>expectedBotWorkerShutdowns := insert (worker_id w) (expectedBotWorkerShutdowns s),
       timers := timers s @ [(5000, SigKillTimer c)],
       effects := effects s @ [Send c Shutdown, SetTimeout 5000 (SigKillTimer c), Send c Shutdown],
       tasks := tasks s @ [RestartAwaitKill w c (Some ws)]\<rparr>"
  have loop: "lazy_loop (w # ws) s = sa"
    unfolding sa_def by (rule lazy_loop_running[OF found c(1) c(2) c(3)])
  define sb where "sb = sa\<lparr>botChildren := AList.update (worker_id w) (nextPid sa) (AList.delete (worker_id w) (botChildren sa)),
          expectedBotWorkerShutdowns := expectedBotWorkerShutdowns sa - {worker_id w},
          nextPid := Suc (nextPid sa),
          botListeners := (botListeners sa)(nextPid sa \<mapsto> w),
          exited := insert c (exited sa),
          timers := filter (\<lambda>t. t \<noteq> (5000, SigKillTimer c)) (timers sa),
          tasks := [],
          effects := effects sa @ [Fork (BotRole w) (nextPid sa)]\<rparr>"
  have exit: "step (ChildExit c) sa = lazy_loop ws sb"
    unfolding sb_def
    by (rule exit_resumes_lazy_loop) (simp_all add: sa_def c Cons.prems(4))
  have cw: "childOf s w = c" by (simp add: childOf_def c)
  have other: "worker_id w' \<noteq> worker_id w" if "w' \<in> set ws" for w'
    using Cons.prems(1) that by (auto simp: image_iff)
  have keep: "\<exists>c'. map_of (botChildren sb) (worker_id w') = Some c' \<and> c' \<notin> killed sb
             \<and> c' \<notin> exited sb \<and> c' < nextPid sb \<and> botListeners sb c' = Some w'
             \<and> childOf sb w' = childOf s w'" if w': "w' \<in> set ws" for w'
  proof -
    from Cons.prems(3) w' obtain c' where c': "map_of (botChildren s) (worker_id w') = Some c'"
      "c' \<notin> killed s" "c' \<notin> exited s" "c' < nextPid s" "botListeners s c' = Some w'"
      by auto
    have "c' \<noteq> c" using c(5) c'(5) other[OF w'] by auto
    moreover have "map_of (botChildren sb) (worker_id w') = Some c'"
      using other[OF w'] c'(1) by (simp add: sb_def sa_def AList.update_conv' AList.delete_conv')
    ultimately show ?thesis
      using c' by (auto simp: sb_def sa_def childOf_def)
  qed
  have same: "childOf sb w' = childOf s w'" if "w' \<in> set ws" for w'
    using keep[OF that] by blast
  have events: "map (\<lambda>w. ChildExit (childOf s w)) ws = map (\<lambda>w. ChildExit (childOf sb w)) ws"
    by (rule map_cong) (simp_all add: same)
  have pairs: "map (\<lambda>w. (w, childOf s w)) ws = map (\<lambda>w. (w, childOf sb w)) ws"
    by (rule map_cong) (simp_all add: same)
  have IH: "effects (run (map (\<lambda>w. ChildExit (childOf sb w)) ws) (lazy_loop ws sb))
           = effects sb @ lazy_effects (map (\<lambda>w. (w, childOf sb w)) ws) (nextPid sb)
         \<and> \<not> reloading (run (map (\<lambda>w. ChildExit (childOf sb w)) ws) (lazy_loop ws sb))
         \<and> tasks (run (map (\<lambda>w. ChildExit (childOf sb w)) ws) (lazy_loop ws sb)) = []"
  proof (rule Cons.IH)
    show "distinct (map worker_id ws)" using Cons.prems(1) by simp
    show "\<forall>w\<in>set ws. find (\<lambda>x. worker_id x = worker_id w) (botWorkers sb) = Some w"
      using Cons.prems(2) by (simp add: sb_def sa_def)
    show "\<forall>w\<in>set ws. \<exists>c. map_of (botChildren sb) (worker_id w) = Some c \<and> c \<notin> killed sb
             \<and> c \<notin> exited sb \<and> c < nextPid sb \<and> botListeners sb c = Some w"
      using keep by blast
    show "tasks sb = []" by (simp add: sb_def)
  qed
  have run: "run (map (\<lambda>w. ChildExit (childOf s w)) (w # ws)) (lazy_loop (w # ws) s)
      = run (map (\<lambda>w. ChildExit (childOf sb w)) ws) (lazy_loop ws sb)"
    by (simp only: list.map run.simps loop cw exit events)
  have eff: "effects sb = effects s @ [Send c Shutdown, SetTimeout 5000 (SigKillTimer c), Send c Shutdown,
      Fork (BotRole w) (nextPid s)]" and fresh: "nextPid sb = Suc (nextPid s)"
    by (simp_all add: sb_def sa_def)
  show ?case
    unfolding run using IH by (simp add: eff fresh cw pairs)
qed


lemma find_by_distinct_id:
  "distinct (map worker_id ws) \<Longrightarrow> w \<in> set ws \<Longrightarrow> find (\<lambda>x. worker_id x = worker_id w) ws = Some w"
  by (induction ws) (auto simp: image_iff)

lemma distinct_ids_workersInOrder:
  "distinct (map worker_id (workersInOrder ws)) \<longleftrightarrow> distinct (map worker_id ws)"
  by (rule mset_eq_imp_distinct_iff) (simp add: workersInOrder_def)

text \<open>
  A whole lazy reload during which nothing else happens, from a state in which every worker
  of the plan runs and the ids of the plan are distinct: per worker the shutdown, the wait
  for the exit of the old child and the fork of the replacement, and only then the shutdown
  of the next worker. The events of the run are the call, the end of the command sync and
  the exits of the old children; the reload completes (\<^verbatim>\<open>reloading\<close> is cleared, nothing is
  left suspended).
\<close>

lemma quiet_lazy_reload_restarts_in_order:
  assumes running: "allRunning s"
  shows "sorted (map lowestShard (workersInOrder (botWorkers s)))
     \<and> mset (workersInOrder (botWorkers s)) = mset (botWorkers s)
     \<and> (\<forall>k. filter (\<lambda>w. lowestShard w = k) (workersInOrder (botWorkers s))
             = filter (\<lambda>w. lowestShard w = k) (botWorkers s))
     \<and> effects (run (quietLazyReload s) s)
         = effects s @ [StartCommandSync (syncsStarted s)]
           @ lazy_effects (map (\<lambda>w. (w, childOf s w)) (workersInOrder (botWorkers s))) (nextPid s)
     \<and> \<not> reloading (run (quietLazyReload s) s)
     \<and> tasks (run (quietLazyReload s) s) = []"
proof -
  define k where "k = syncsStarted s"
  define order where "order = workersInOrder (botWorkers s)"
  define s3 where "s3 = s\<lparr>reloading := True, syncsStarted := Suc k, syncsDone := insert k (syncsDone s),
      tasks := [], effects := effects s @ [StartCommandSync k]\<rparr>"
  from running have ids: "distinct (map worker_id (botWorkers s))"
    and children: "\<forall>w\<in>set (botWorkers s). \<exists>c. map_of (botChildren s) (worker_id w) = Some c
        \<and> c \<notin> killed s \<and> c \<notin> exited s \<and> c < nextPid s \<and> botListeners s c = Some w"
    and idle: "tasks s = []" "k \<notin> syncsDone s" "\<not> stopped s"
    by (auto simp: allRunning_def list_all_iff k_def split: option.splits)
  have started: "step (Call ReloadLazy) s
      = s\<lparr>reloading := True, syncsStarted := Suc k, effects := effects s @ [StartCommandSync k],
          tasks := [LazyAwaitSync k]\<rparr>"
    using idle by (simp add: reloadLazy_def startCommandSync_def suspend_def k_def)
  have synced: "step (CommandSyncDone k) (step (Call ReloadLazy) s) = lazy_loop order s3"
    unfolding started using idle
    apply (simp add: commandSyncDone_def reloadLazy_afterSync_def Let_def order_def s3_def)
    apply (intro arg_cong[where f = "lazy_loop (workersInOrder (botWorkers s))"])
    apply (rule supervisor.equality; simp)
    done
  have same_child: "childOf s3 w = childOf s w" for w
    by (simp add: childOf_def s3_def)
  have set_order: "set order = set (botWorkers s)"
    by (simp add: order_def workersInOrder_def)
  have loop: "effects (run (map (\<lambda>w. ChildExit (childOf s3 w)) order) (lazy_loop order s3))
           = effects s3 @ lazy_effects (map (\<lambda>w. (w, childOf s3 w)) order) (nextPid s3)
         \<and> \<not> reloading (run (map (\<lambda>w. ChildExit (childOf s3 w)) order) (lazy_loop order s3))
         \<and> tasks (run (map (\<lambda>w. ChildExit (childOf s3 w)) order) (lazy_loop order s3)) = []"
  proof (rule quiet_lazy_loop)
    show "distinct (map worker_id order)"
      using ids by (simp add: order_def distinct_ids_workersInOrder)
    show "\<forall>w\<in>set order. find (\<lambda>x. worker_id x = worker_id w) (botWorkers s3) = Some w"
      using ids by (simp add: set_order s3_def find_by_distinct_id)
    show "\<forall>w\<in>set order. \<exists>c. map_of (botChildren s3) (worker_id w) = Some c \<and> c \<notin> killed s3
             \<and> c \<notin> exited s3 \<and> c < nextPid s3 \<and> botListeners s3 c = Some w"
      using children by (simp add: set_order s3_def)
    show "tasks s3 = []" by (simp add: s3_def)
  qed
  have run: "run (quietLazyReload s) s = run (map (\<lambda>w. ChildExit (childOf s3 w)) order) (lazy_loop order s3)"
    unfolding quietLazyReload_def k_def[symmetric] order_def[symmetric] same_child
    by (simp only: append.simps run.simps synced)
  have "sorted (map lowestShard order)"
    by (simp add: order_def workersInOrder_def)
  moreover have "mset order = mset (botWorkers s)"
    by (simp add: order_def workersInOrder_def)
  moreover have "\<forall>k. filter (\<lambda>w. lowestShard w = k) order = filter (\<lambda>w. lowestShard w = k) (botWorkers s)"
    by (simp add: order_def workersInOrder_def sort_key_stable)
  moreover have "effects (run (quietLazyReload s) s)
         = effects s @ [StartCommandSync (syncsStarted s)]
           @ lazy_effects (map (\<lambda>w. (w, childOf s w)) order) (nextPid s)"
    unfolding run using loop by (simp add: same_child) (simp add: s3_def k_def)
  moreover have "\<not> reloading (run (quietLazyReload s) s)" "tasks (run (quietLazyReload s) s) = []"
    unfolding run using loop by simp_all
  ultimately show ?thesis
    unfolding order_def by blast
qed

lemma quiet_lazy_reload_example:
  "effects (run [Call ReloadLazy, CommandSyncDone 1, ChildExit 3, ChildExit 1, ChildExit 2]
      (startSupervisor [\<lparr>worker_id = ''c'', shards = [2, 3]\<rparr>,
                        \<lparr>worker_id = ''b'', shards = [4, 5]\<rparr>,
                        \<lparr>worker_id = ''a'', shards = [0, 1]\<rparr>]))
     = [StartCommandSync 0, Fork RestRole 0,
        Fork (BotRole \<lparr>worker_id = ''c'', shards = [2, 3]\<rparr>) 1,
        Fork (BotRole \<lparr>worker_id = ''b'', shards = [4, 5]\<rparr>) 2,
        Fork (BotRole \<lparr>worker_id = ''a'', shards = [0, 1]\<rparr>) 3,
        Fork GatewayRole 4, StartCommandSync 1,
        Send 3 Shutdown, SetTimeout 5000 (SigKillTimer 3), Send 3 Shutdown,
        Fork (BotRole \<lparr>worker_id = ''a'', shards = [0, 1]\<rparr>) 5,
        Send 1 Shutdown, SetTimeout 5000 (SigKillTimer 1), Send 1 Shutdown,
        Fork (BotRole \<lparr>worker_id = ''c'', shards = [2, 3]\<rparr>) 6,
        Send 2 Shutdown, SetTimeout 5000 (SigKillTimer 2), Send 2 Shutdown,
        Fork (BotRole \<lparr>worker_id = ''b'', shards = [4, 5]\<rparr>) 7]"
proof -
  define s0 where "s0 = startSupervisor [\<lparr>worker_id = ''c'', shards = [2::int, 3]\<rparr>,
                        \<lparr>worker_id = ''b'', shards = [4, 5]\<rparr>,
                        \<lparr>worker_id = ''a'', shards = [0, 1]\<rparr>]"
  have running: "allRunning s0"
    by (simp add: allRunning_def s0_def eval_defs)
  have events: "quietLazyReload s0 = [Call ReloadLazy, CommandSyncDone 1, ChildExit 3, ChildExit 1, ChildExit 2]"
    by (simp add: quietLazyReload_def childOf_def s0_def eval_defs)
  have "effects (run (quietLazyReload s0) s0)
         = effects s0 @ [StartCommandSync (syncsStarted s0)]
           @ lazy_effects (map (\<lambda>w. (w, childOf s0 w)) (workersInOrder (botWorkers s0))) (nextPid s0)"
    using quiet_lazy_reload_restarts_in_order[OF running] by blast
  then show ?thesis
    unfolding events by (simp add: childOf_def s0_def eval_defs)
qed

subsection \<open>Lazy reload, in every state\<close>

text \<open>
  No function of the supervisor removes a task from the list of suspended tasks; only
  \<open>childExit\<close> and \<open>commandSyncDone\<close> take the list, to resume its tasks one after the other.
\<close>

lemma keepsTasks_refl [simp]: "keepsTasks s s"
  by (simp add: keepsTasks_def)

lemma keepsTasks_send [simp]: "keepsTasks s (send c m s') \<longleftrightarrow> keepsTasks s s'"
  by (simp add: keepsTasks_def send_def)

lemma keepsTasks_suspend [simp]: "keepsTasks s s' \<Longrightarrow> keepsTasks s (suspend t s')"
  by (auto simp: keepsTasks_def suspend_def)

lemma keepsTasks_spawnBotWorker [simp]: "keepsTasks s (spawnBotWorker w s') \<longleftrightarrow> keepsTasks s s'"
  by (simp add: keepsTasks_def spawnBotWorker_def)

lemma keepsTasks_spawnRestWorker [simp]: "keepsTasks s (spawnRestWorker s') \<longleftrightarrow> keepsTasks s s'"
  by (simp add: keepsTasks_def spawnRestWorker_def)

lemma keepsTasks_spawnGatewayWorker [simp]: "keepsTasks s (spawnGatewayWorker s') \<longleftrightarrow> keepsTasks s s'"
  by (simp add: keepsTasks_def spawnGatewayWorker_def)

lemma keepsTasks_updates [simp]:
  "keepsTasks s (s'\<lparr>botChildren := a\<rparr>) \<longleftrightarrow> keepsTasks s s'"
  "keepsTasks s (s'\<lparr>expectedBotWorkerShutdowns := b\<rparr>) \<longleftrightarrow> keepsTasks s s'"
  "keepsTasks s (s'\<lparr>shardInfoRequests := c\<rparr>) \<longleftrightarrow> keepsTasks s s'"
  "keepsTasks s (s'\<lparr>pendingEvents := d\<rparr>) \<longleftrightarrow> keepsTasks s s'"
  "keepsTasks s (s'\<lparr>restChild := e\<rparr>) \<longleftrightarrow> keepsTasks s s'"
  "keepsTasks s (s'\<lparr>gatewayChild := f\<rparr>) \<longleftrightarrow> keepsTasks s s'"
  "keepsTasks s (s'\<lparr>stopped := g\<rparr>) \<longleftrightarrow> keepsTasks s s'"
  "keepsTasks s (s'\<lparr>reloading := h\<rparr>) \<longleftrightarrow> keepsTasks s s'"
  "keepsTasks s (s'\<lparr>killed := i\<rparr>) \<longleftrightarrow> keepsTasks s s'"
  "keepsTasks s (s'\<lparr>exited := j\<rparr>) \<longleftrightarrow> keepsTasks s s'"
  "keepsTasks s (s'\<lparr>timers := k\<rparr>) \<longleftrightarrow> keepsTasks s s'"
  "keepsTasks s (s'\<lparr>syncsDone := l\<rparr>) \<longleftrightarrow> keepsTasks s s'"
  "keepsTasks s (s'\<lparr>effects := n\<rparr>) \<longleftrightarrow> keepsTasks s s'"
  by (simp_all add: keepsTasks_def)

lemma keepsTasks_startCommandSync [simp]: "keepsTasks s (snd (startCommandSync s')) \<longleftrightarrow> keepsTasks s s'"
  by (simp add: keepsTasks_def startCommandSync_def)

lemma keepsTasks_fold_spawn [simp]: "keepsTasks s (fold spawnBotWorker ws s') \<longleftrightarrow> keepsTasks s s'"
  by (induction ws arbitrary: s') simp_all

lemma keepsTasks_fold_send [simp]: "keepsTasks s (fold (\<lambda>c. send c m) cs s') \<longleftrightarrow> keepsTasks s s'"
  by (induction cs arbitrary: s') simp_all

lemma keepsTasks_flush_loop [simp]: "keepsTasks s (flush_loop wid w evs keep s') \<longleftrightarrow> keepsTasks s s'"
  by (induction evs arbitrary: keep s') simp_all

lemma keepsTasks_flush [simp]: "keepsTasks s (flushPendingEventsForWorker wid s') \<longleftrightarrow> keepsTasks s s'"
  by (simp add: flushPendingEventsForWorker_def split: option.splits)

lemma keepsTasks_sendGateway [simp]: "keepsTasks s (sendGateway m s') \<longleftrightarrow> keepsTasks s s'"
  by (simp add: sendGateway_def split: option.splits)

lemma keepsTasks_onBotMessage [simp]: "keepsTasks s (onBotMessage c m s') \<longleftrightarrow> keepsTasks s s'"
  by (simp add: onBotMessage_def split: ipc_message.splits)

lemma keepsTasks_onGatewayMessage [simp]: "keepsTasks s (onGatewayMessage m s') \<longleftrightarrow> keepsTasks s s'"
  by (simp add: onGatewayMessage_def Let_def split: ipc_message.splits option.splits)

lemma keepsTasks_onBotExit [simp]: "keepsTasks s (onBotExit w s') \<longleftrightarrow> keepsTasks s s'"
  by (simp add: onBotExit_def Let_def)

lemma keepsTasks_respawnTimer [simp]: "keepsTasks s (respawnTimer w s') \<longleftrightarrow> keepsTasks s s'"
  by (simp add: respawnTimer_def)

lemma keepsTasks_killChild [simp]: "keepsTasks s (fst (killChild c s')) \<longleftrightarrow> keepsTasks s s'"
  by (simp add: killChild_def split: option.splits)

lemma keepsTasks_killChildren [simp]: "keepsTasks s (fst (killChildren cs s')) \<longleftrightarrow> keepsTasks s s'"
proof (induction cs arbitrary: s')
  case Nil
  show ?case by simp
next
  case (Cons c cs)
  have "keepsTasks s (fst (killChildren cs (fst (killChild (Some c) s')))) \<longleftrightarrow> keepsTasks s s'"
    by (simp add: Cons.IH)
  then show ?case
    by (simp add: split_def)
qed

lemma keepsTasks_restart_finish [simp]: "keepsTasks s (restart_finish w s') \<longleftrightarrow> keepsTasks s s'"
  by (simp add: restart_finish_def)

lemma keepsTasks_restartBotWorkerById:
  "restartBotWorkerById wid s' = Inr (s1, r) \<Longrightarrow> keepsTasks s s1 \<longleftrightarrow> keepsTasks s s'"
  unfolding restartBotWorkerById_def Let_def
  apply (simp split: option.splits prod.splits)
   apply (metis fst_conv keepsTasks_killChild keepsTasks_send keepsTasks_updates(2) keepsTasks_restart_finish keepsTasks_spawnBotWorker)+
  done

lemma keepsTasks_restartWorker:
  "restartWorker wid s' = Inr s1 \<Longrightarrow> keepsTasks s s' \<Longrightarrow> keepsTasks s s1"
  unfolding restartWorker_def
  by (auto split: sum.splits option.splits prod.splits simp: keepsTasks_restartBotWorkerById)

lemma keepsTasks_lazy_loop [simp]: "keepsTasks s s' \<Longrightarrow> keepsTasks s (lazy_loop ws s')"
proof (induction ws arbitrary: s')
  case Nil
  then show ?case by simp
next
  case (Cons w ws)
  then show ?case
    by (auto split: sum.splits option.splits prod.splits
        simp: keepsTasks_restartBotWorkerById)
qed

lemma keepsTasks_reloadLazy [simp]: "keepsTasks s s' \<Longrightarrow> keepsTasks s (reloadLazy s')"
  by (simp add: reloadLazy_def split_def)

lemma keepsTasks_reload_afterKills [simp]: "keepsTasks s s' \<Longrightarrow> keepsTasks s (reload_afterKills k s')"
  by (simp add: reload_afterKills_def Let_def)

lemma keepsTasks_reload [simp]: "keepsTasks s s' \<Longrightarrow> keepsTasks s (reload s')"
  by (simp add: reload_def split_def Let_def)

lemma keepsTasks_fullReload_afterRest [simp]: "keepsTasks s s' \<Longrightarrow> keepsTasks s (fullReload_afterRest s')"
  by (simp add: fullReload_afterRest_def Let_def)

lemma keepsTasks_fullReload_afterGateway [simp]: "keepsTasks s s' \<Longrightarrow> keepsTasks s (fullReload_afterGateway s')"
  by (simp add: fullReload_afterGateway_def Let_def case_killChild_fst split: option.splits)

lemma keepsTasks_fullReload_afterKills [simp]: "keepsTasks s s' \<Longrightarrow> keepsTasks s (fullReload_afterKills s')"
  by (simp add: fullReload_afterKills_def Let_def case_killChild_fst split: option.splits)

lemma keepsTasks_fullReload_afterSync [simp]: "keepsTasks s s' \<Longrightarrow> keepsTasks s (fullReload_afterSync s')"
  by (simp add: fullReload_afterSync_def Let_def split_def)

lemma keepsTasks_fullReload [simp]: "keepsTasks s s' \<Longrightarrow> keepsTasks s (fullReload s')"
  by (simp add: fullReload_def split_def)

lemma keepsTasks_stop_afterGateway [simp]: "keepsTasks s s' \<Longrightarrow> keepsTasks s (stop_afterGateway s')"
  by (simp add: stop_afterGateway_def case_killChild_fst split: option.splits)

lemma keepsTasks_stop_afterKills [simp]: "keepsTasks s s' \<Longrightarrow> keepsTasks s (stop_afterKills s')"
  by (simp add: stop_afterKills_def Let_def case_killChild_fst split: option.splits)

lemma keepsTasks_stop [simp]: "keepsTasks s s' \<Longrightarrow> keepsTasks s (stop s')"
  by (simp add: stop_def split_def)

lemma keepsTasks_resumeOnExit [simp]: "keepsTasks s s' \<Longrightarrow> keepsTasks s (resumeOnExit c t s')"
  by (cases t) (simp_all split: option.splits)

lemma keepsTasks_resumeOnSync [simp]: "keepsTasks s s' \<Longrightarrow> keepsTasks s (resumeOnSync k t s')"
  by (cases t) (simp_all add: reloadLazy_afterSync_def)

lemma keepsTasks_timerFires [simp]: "keepsTasks s s' \<Longrightarrow> keepsTasks s (timerFires i s')"
  by (simp add: timerFires_def Let_def split: timer.splits)


text \<open>
  A task that waits for the exit of a child stays suspended through every event but that
  exit.
\<close>


lemma keepsTasks_member: "keepsTasks s s' \<Longrightarrow> t \<in> set (tasks s) \<Longrightarrow> t \<in> set (tasks s')"
  by (auto simp: keepsTasks_def)

lemma resumeOnExit_not_awaited: "\<not> awaitsExit t c \<Longrightarrow> resumeOnExit c t s = suspend t s"
  by (cases t) simp_all

lemma fold_resumeOnExit_others:
  "\<forall>t\<in>set ts. \<not> awaitsExit t c \<Longrightarrow> fold (resumeOnExit c) ts s = s\<lparr>tasks := tasks s @ ts\<rparr>"
  by (induction ts arbitrary: s) (simp_all add: resumeOnExit_not_awaited suspend_def)

lemma fold_resumeOnExit_keeps:
  "(t \<in> set ts \<and> \<not> awaitsExit t c) \<or> t \<in> set (tasks s0) \<Longrightarrow>
   t \<in> set (tasks (fold (resumeOnExit c) ts s0))"
proof (induction ts arbitrary: s0)
  case Nil
  then show ?case by simp
next
  case (Cons a ts)
  have "(t \<in> set ts \<and> \<not> awaitsExit t c) \<or> t \<in> set (tasks (resumeOnExit c a s0))"
  proof (cases "t \<in> set (tasks s0)")
    case True
    then show ?thesis
      using keepsTasks_member[of s0 "resumeOnExit c a s0" t] by simp
  next
    case False
    with Cons.prems have "(t = a \<or> t \<in> set ts) \<and> \<not> awaitsExit t c" by auto
    then show ?thesis
      by (auto simp: resumeOnExit_not_awaited suspend_def)
  qed
  then show ?case
    using Cons.IH by simp
qed

lemma fold_resumeOnSync_keeps:
  "(t \<in> set ts \<and> (\<forall>s. resumeOnSync k t s = suspend t s)) \<or> t \<in> set (tasks s0) \<Longrightarrow>
   t \<in> set (tasks (fold (resumeOnSync k) ts s0))"
proof (induction ts arbitrary: s0)
  case Nil
  then show ?case by simp
next
  case (Cons a ts)
  have "(t \<in> set ts \<and> (\<forall>s. resumeOnSync k t s = suspend t s)) \<or> t \<in> set (tasks (resumeOnSync k a s0))"
  proof (cases "t \<in> set (tasks s0)")
    case True
    then show ?thesis
      using keepsTasks_member[of s0 "resumeOnSync k a s0" t] by simp
  next
    case False
    with Cons.prems have "(t = a \<or> t \<in> set ts) \<and> (\<forall>s. resumeOnSync k t s = suspend t s)" by auto
    then show ?thesis
      by (auto simp: suspend_def)
  qed
  then show ?case
    using Cons.IH by simp
qed

lemma tasks_onBotExit [simp]: "tasks (onBotExit w s) = tasks s"
  by (simp add: onBotExit_def Let_def)

lemma nextPid_onBotExit [simp]: "nextPid (onBotExit w s) = nextPid s"
  by (simp add: onBotExit_def Let_def)

lemma tasks_exitListeners [simp]: "tasks (exitListeners c s) = tasks s"
  by (simp add: exitListeners_def onBotExit_def Let_def split: option.splits)

lemma nextPid_exitListeners [simp]: "nextPid (exitListeners c s) = nextPid s"
  by (simp add: exitListeners_def onBotExit_def Let_def split: option.splits)

lemma childExit_exitListeners:
  "childExit c s =
     (if c \<in> exited s \<or> nextPid s \<le> c then s
      else fold (resumeOnExit c) (tasks s) ((exitListeners c s)\<lparr>tasks := []\<rparr>))"
  by (simp add: childExit_def exitListeners_def Let_def split: option.splits)

lemma restart_stays_suspended:
  assumes t: "RestartAwaitKill found child caller \<in> set (tasks s)" and e: "e \<noteq> ChildExit child"
  shows "RestartAwaitKill found child caller \<in> set (tasks (step e s))"
proof (cases e)
  case (Call c)
  show ?thesis
  proof (cases c)
    case (RestartWorker wid)
    then show ?thesis
      using t Call keepsTasks_restartWorker[of wid s _ s]
      by (auto split: sum.splits intro: keepsTasks_member)
  next
    case (RestartShard sh)
    then show ?thesis
      using t Call keepsTasks_restartWorker[of _ s _ s]
      by (auto simp: restartShard_def split: sum.splits option.splits if_splits intro: keepsTasks_member)
  qed (use t Call in \<open>auto intro: keepsTasks_member[of s _ "RestartAwaitKill found child caller"]\<close>)
next
  case (GatewayMessage m)
  then show ?thesis
    using t keepsTasks_member[of s "onGatewayMessage m s"] by simp
next
  case (BotMessage c m)
  then show ?thesis
    using t keepsTasks_member[of s "onBotMessage c m s"] by simp
next
  case (ChildExit c)
  with e have "c \<noteq> child" by simp
  then have "\<not> awaitsExit (RestartAwaitKill found child caller) c" by simp
  then show ?thesis
    using t ChildExit fold_resumeOnExit_keeps[of "RestartAwaitKill found child caller" "tasks s" c]
    by (simp add: childExit_exitListeners)
next
  case (TimerFires i)
  then show ?thesis
    using t keepsTasks_member[of s "timerFires i s"] by simp
next
  case (CommandSyncDone k)
  have "\<forall>s'. resumeOnSync k (RestartAwaitKill found child caller) s' = suspend (RestartAwaitKill found child caller) s'"
    by simp
  then show ?thesis
    using t CommandSyncDone fold_resumeOnSync_keeps[of "RestartAwaitKill found child caller" "tasks s" k]
    by (simp add: commandSyncDone_def Let_def)
qed

lemma exit_resumes_suspended_restart:
  assumes alive: "child \<notin> exited s" "child < nextPid s"
    and tasks: "tasks s = before @ RestartAwaitKill found child (Some rest) # after"
    and others: "\<forall>t\<in>set (before @ after). \<not> awaitsExit t child"
  shows "step (ChildExit child) s =
     (lazy_loop rest (restart_finish found ((exitListeners child s)\<lparr>tasks := before\<rparr>)))
       \<lparr>tasks := tasks (lazy_loop rest (restart_finish found ((exitListeners child s)\<lparr>tasks := before\<rparr>))) @ after\<rparr>"
proof -
  have b: "\<forall>t\<in>set before. \<not> awaitsExit t child" and a: "\<forall>t\<in>set after. \<not> awaitsExit t child"
    using others by auto
  show ?thesis
    using alive
    by (simp add: childExit_exitListeners tasks fold_resumeOnExit_others[OF b]
        fold_resumeOnExit_others[OF a])
qed


text \<open>The effects are only ever extended, and process numbers only go up.\<close>

lemma grows_refl [simp]: "grows s s"
  by (simp add: grows_def)

lemma grows_trans: "grows s s' \<Longrightarrow> grows s' s'' \<Longrightarrow> grows s s''"
  by (auto simp: grows_def)

lemma grows_send [simp]: "grows s s' \<Longrightarrow> grows s (send c m s')"
  by (auto simp: grows_def send_def)

lemma grows_suspend [simp]: "grows s (suspend t s') \<longleftrightarrow> grows s s'"
  by (simp add: grows_def suspend_def)

lemma grows_spawnBotWorker [simp]: "grows s s' \<Longrightarrow> grows s (spawnBotWorker w s')"
  by (auto simp: grows_def spawnBotWorker_def)

lemma grows_spawnRestWorker [simp]: "grows s s' \<Longrightarrow> grows s (spawnRestWorker s')"
  by (auto simp: grows_def spawnRestWorker_def)

lemma grows_spawnGatewayWorker [simp]: "grows s s' \<Longrightarrow> grows s (spawnGatewayWorker s')"
  by (auto simp: grows_def spawnGatewayWorker_def)

lemma grows_updates [simp]:
  "grows s (s'\<lparr>botChildren := a\<rparr>) \<longleftrightarrow> grows s s'"
  "grows s (s'\<lparr>expectedBotWorkerShutdowns := b\<rparr>) \<longleftrightarrow> grows s s'"
  "grows s (s'\<lparr>shardInfoRequests := c\<rparr>) \<longleftrightarrow> grows s s'"
  "grows s (s'\<lparr>pendingEvents := d\<rparr>) \<longleftrightarrow> grows s s'"
  "grows s (s'\<lparr>restChild := e\<rparr>) \<longleftrightarrow> grows s s'"
  "grows s (s'\<lparr>gatewayChild := f\<rparr>) \<longleftrightarrow> grows s s'"
  "grows s (s'\<lparr>stopped := g\<rparr>) \<longleftrightarrow> grows s s'"
  "grows s (s'\<lparr>reloading := h\<rparr>) \<longleftrightarrow> grows s s'"
  "grows s (s'\<lparr>killed := i\<rparr>) \<longleftrightarrow> grows s s'"
  "grows s (s'\<lparr>exited := j\<rparr>) \<longleftrightarrow> grows s s'"
  "grows s (s'\<lparr>timers := k\<rparr>) \<longleftrightarrow> grows s s'"
  "grows s (s'\<lparr>syncsDone := l\<rparr>) \<longleftrightarrow> grows s s'"
  "grows s (s'\<lparr>tasks := n\<rparr>) \<longleftrightarrow> grows s s'"
  by (simp_all add: grows_def)

lemma grows_startCommandSync [simp]: "grows s s' \<Longrightarrow> grows s (snd (startCommandSync s'))"
  by (auto simp: grows_def startCommandSync_def)

lemma grows_fold_spawn [simp]: "grows s s' \<Longrightarrow> grows s (fold spawnBotWorker ws s')"
  by (induction ws arbitrary: s') simp_all

lemma grows_fold_send [simp]: "grows s s' \<Longrightarrow> grows s (fold (\<lambda>c. send c m) cs s')"
  by (induction cs arbitrary: s') simp_all

lemma grows_flush_loop [simp]: "grows s s' \<Longrightarrow> grows s (flush_loop wid w evs keep s')"
  by (induction evs arbitrary: keep s') simp_all

lemma grows_flush [simp]: "grows s s' \<Longrightarrow> grows s (flushPendingEventsForWorker wid s')"
  by (simp add: flushPendingEventsForWorker_def split: option.splits)

lemma grows_onBotExit [simp]: "grows s s' \<Longrightarrow> grows s (onBotExit w s')"
  by (auto simp: grows_def onBotExit_def Let_def)

lemma grows_exitListeners [simp]: "grows s s' \<Longrightarrow> grows s (exitListeners c s')"
  by (simp add: exitListeners_def Let_def split: option.splits)

lemma grows_killChild [simp]: "grows s s' \<Longrightarrow> grows s (fst (killChild c s'))"
  by (auto simp: grows_def killChild_def send_def split: option.splits)

lemma grows_killChildren [simp]: "grows s s' \<Longrightarrow> grows s (fst (killChildren cs s'))"
proof (induction cs arbitrary: s')
  case Nil
  then show ?case by simp
next
  case (Cons c cs)
  have "grows s (fst (killChildren cs (fst (killChild (Some c) s'))))"
    by (rule Cons.IH) (simp add: Cons.prems)
  then show ?case
    by (simp add: split_def)
qed

lemma grows_restart_finish [simp]: "grows s s' \<Longrightarrow> grows s (restart_finish w s')"
  by (simp add: restart_finish_def)

lemma grows_restartBotWorkerById:
  "restartBotWorkerById wid s' = Inr (s1, r) \<Longrightarrow> grows s s' \<Longrightarrow> grows s s1"
  unfolding restartBotWorkerById_def Let_def
  apply (simp split: option.splits prod.splits)
   apply (metis fst_conv grows_killChild grows_send grows_updates(2) grows_restart_finish grows_spawnBotWorker)+
  done

lemma grows_lazy_loop [simp]: "grows s s' \<Longrightarrow> grows s (lazy_loop ws s')"
proof (induction ws arbitrary: s')
  case Nil
  then show ?case by simp
next
  case (Cons w ws)
  then show ?case
    by (auto split: sum.splits option.splits prod.splits
        simp: grows_restartBotWorkerById)
qed

lemma grows_reload_afterKills [simp]: "grows s s' \<Longrightarrow> grows s (reload_afterKills k s')"
  by (simp add: reload_afterKills_def Let_def)

lemma grows_fullReload_afterRest [simp]: "grows s s' \<Longrightarrow> grows s (fullReload_afterRest s')"
  by (simp add: fullReload_afterRest_def Let_def)

lemma grows_fullReload_afterGateway [simp]: "grows s s' \<Longrightarrow> grows s (fullReload_afterGateway s')"
  by (simp add: fullReload_afterGateway_def Let_def case_killChild_fst split: option.splits)

lemma grows_fullReload_afterKills [simp]: "grows s s' \<Longrightarrow> grows s (fullReload_afterKills s')"
  by (simp add: fullReload_afterKills_def Let_def case_killChild_fst split: option.splits)

lemma grows_stop_afterGateway [simp]: "grows s s' \<Longrightarrow> grows s (stop_afterGateway s')"
  by (simp add: stop_afterGateway_def case_killChild_fst split: option.splits)

lemma grows_stop_afterKills [simp]: "grows s s' \<Longrightarrow> grows s (stop_afterKills s')"
  by (simp add: stop_afterKills_def Let_def case_killChild_fst split: option.splits)

lemma grows_resumeOnExit [simp]: "grows s s' \<Longrightarrow> grows s (resumeOnExit c t s')"
  by (cases t) (simp_all split: option.splits)

lemma grows_fold_resumeOnExit [simp]: "grows s s' \<Longrightarrow> grows s (fold (resumeOnExit c) ts s')"
  by (induction ts arbitrary: s') simp_all

lemma fold_resumeOnExit_forks:
  assumes "RestartAwaitKill found c caller \<in> set ts"
  shows "\<exists>pre p later. effects (fold (resumeOnExit c) ts s0)
            = effects s0 @ pre @ Fork (BotRole found) p # later \<and> nextPid s0 \<le> p"
  using assms
proof (induction ts arbitrary: s0)
  case Nil
  then show ?case by simp
next
  case (Cons a ts)
  show ?case
  proof (cases "a = RestartAwaitKill found c caller")
    case True
    define s1 where "s1 = restart_finish found s0"
    define s2 where "s2 = resumeOnExit c a s0"
    have e1: "effects s1 = effects s0 @ [Fork (BotRole found) (nextPid s0)]"
      by (simp add: s1_def restart_finish_def spawnBotWorker_def)
    have "grows s1 s2"
      unfolding s2_def True s1_def by (cases caller) simp_all
    moreover have "grows s2 (fold (resumeOnExit c) ts s2)"
      by simp
    ultimately have "grows s1 (fold (resumeOnExit c) ts s2)"
      by (rule grows_trans)
    then obtain later where "effects (fold (resumeOnExit c) ts s2) = effects s1 @ later"
      by (auto simp: grows_def)
    then have "effects (fold (resumeOnExit c) (a # ts) s0)
        = effects s0 @ [] @ Fork (BotRole found) (nextPid s0) # later"
      by (simp add: s2_def e1)
    then show ?thesis
      by blast
  next
    case False
    define s2 where "s2 = resumeOnExit c a s0"
    from False Cons.prems have "RestartAwaitKill found c caller \<in> set ts" by simp
    from Cons.IH[OF this, of s2] obtain pre p later where
      eq: "effects (fold (resumeOnExit c) ts s2) = effects s2 @ pre @ Fork (BotRole found) p # later"
      and p: "nextPid s2 \<le> p" by blast
    have "grows s0 s2" by (simp add: s2_def)
    then obtain l0 where l0: "effects s2 = effects s0 @ l0" and n: "nextPid s0 \<le> nextPid s2"
      by (auto simp: grows_def)
    have "effects (fold (resumeOnExit c) (a # ts) s0)
        = effects s0 @ (l0 @ pre) @ Fork (BotRole found) p # later"
      using eq l0 by (simp add: s2_def)
    moreover have "nextPid s0 \<le> p" using p n by simp
    ultimately show ?thesis by blast
  qed
qed

lemma exit_forks_replacement:
  assumes alive: "child \<notin> exited s" "child < nextPid s"
    and task: "RestartAwaitKill found child caller \<in> set (tasks s)"
  shows "\<exists>pre p later. effects (step (ChildExit child) s)
            = effects s @ pre @ Fork (BotRole found) p # later \<and> nextPid s \<le> p"
proof -
  define s3 where "s3 = (exitListeners child s)\<lparr>tasks := []\<rparr>"
  from fold_resumeOnExit_forks[OF task, of s3] obtain pre p later where
    eq: "effects (fold (resumeOnExit child) (tasks s) s3) = effects s3 @ pre @ Fork (BotRole found) p # later"
    and p: "nextPid s3 \<le> p" by blast
  have "grows s s3" by (simp add: s3_def)
  then obtain l0 where l0: "effects s3 = effects s @ l0" and n: "nextPid s \<le> nextPid s3"
    by (auto simp: grows_def)
  have "effects (step (ChildExit child) s) = effects s @ (l0 @ pre) @ Fork (BotRole found) p # later"
    using alive eq l0 by (simp add: childExit_exitListeners s3_def)
  moreover have "nextPid s \<le> p" using p n by simp
  ultimately show ?thesis by blast
qed


text \<open>The start of a lazy reload, and one turn of its loop in each of the three cases.\<close>

lemma resumeOnSync_not_awaited: "\<not> awaitsSync t k \<Longrightarrow> resumeOnSync k t s = suspend t s"
  by (cases t) simp_all

lemma fold_resumeOnSync_others:
  "\<forall>t\<in>set ts. \<not> awaitsSync t k \<Longrightarrow> fold (resumeOnSync k) ts s = s\<lparr>tasks := tasks s @ ts\<rparr>"
  by (induction ts arbitrary: s) (simp_all add: resumeOnSync_not_awaited suspend_def)

lemma sync_resumes_lazy_reload:
  assumes pending: "k \<notin> syncsDone s" "k < syncsStarted s"
    and tasks: "tasks s = before @ LazyAwaitSync k # after"
    and others: "\<forall>t\<in>set (before @ after). \<not> awaitsSync t k"
  shows "step (CommandSyncDone k) s =
     (lazy_loop (workersInOrder (botWorkers s)) (s\<lparr>syncsDone := insert k (syncsDone s), tasks := before\<rparr>))
       \<lparr>tasks := tasks (lazy_loop (workersInOrder (botWorkers s))
                         (s\<lparr>syncsDone := insert k (syncsDone s), tasks := before\<rparr>)) @ after\<rparr>"
proof -
  have b: "\<forall>t\<in>set before. \<not> awaitsSync t k" and a: "\<forall>t\<in>set after. \<not> awaitsSync t k"
    using others by auto
  show ?thesis
    using pending
    by (simp add: commandSyncDone_def Let_def tasks fold_resumeOnSync_others[OF b]
        fold_resumeOnSync_others[OF a] reloadLazy_afterSync_def)
qed

lemma reloadLazy_starts:
  "\<not> stopped s \<Longrightarrow> step (Call ReloadLazy) s =
     s\<lparr>reloading := True, syncsStarted := Suc (syncsStarted s),
       effects := effects s @ [StartCommandSync (syncsStarted s)],
       tasks := tasks s @ [LazyAwaitSync (syncsStarted s)]\<rparr>"
  by (simp add: reloadLazy_def startCommandSync_def suspend_def)

lemma find_first_with_id:
  "w \<in> set ws \<Longrightarrow> \<exists>first. find (\<lambda>x. worker_id x = worker_id w) ws = Some first
      \<and> worker_id first = worker_id w"
  by (induction ws) auto

lemma lazy_loop_unregistered:
  assumes "find (\<lambda>x. worker_id x = worker_id w) (botWorkers s) = Some found"
    and "map_of (botChildren s) (worker_id w) = None"
  shows "lazy_loop (w # rest) s =
     lazy_loop rest
       (s\<lparr>botChildren := AList.update (worker_id found) (nextPid s) (botChildren s),
          expectedBotWorkerShutdowns := insert (worker_id w) (expectedBotWorkerShutdowns s),
          nextPid := Suc (nextPid s),
          botListeners := (botListeners s)(nextPid s \<mapsto> found),
          effects := effects s @ [Fork (BotRole found) (nextPid s)]\<rparr>)"
  using assms
  apply (simp add: restartBotWorkerById_def spawnBotWorker_def Let_def)
  apply (intro arg_cong[where f = "lazy_loop rest"])
  apply (rule supervisor.equality; simp)
  done

lemma lazy_loop_live_child:
  assumes "find (\<lambda>x. worker_id x = worker_id w) (botWorkers s) = Some found"
    and "map_of (botChildren s) (worker_id w) = Some c"
    and "c \<notin> killed s" "c \<notin> exited s"
  shows "lazy_loop (w # rest) s =
     s\<lparr>expectedBotWorkerShutdowns := insert (worker_id w) (expectedBotWorkerShutdowns s),
       timers := timers s @ [(5000, SigKillTimer c)],
       effects := effects s @ [Send c Shutdown, SetTimeout 5000 (SigKillTimer c), Send c Shutdown],
       tasks := tasks s @ [RestartAwaitKill found c (Some rest)]\<rparr>"
  using assms
  by (simp add: restartBotWorkerById_def killChild_def send_def suspend_def Let_def)

lemma lazy_loop_killed_child:
  assumes "find (\<lambda>x. worker_id x = worker_id w) (botWorkers s) = Some found"
    and "map_of (botChildren s) (worker_id w) = Some c"
    and "c \<in> killed s"
  shows "lazy_loop (w # rest) s =
     lazy_loop rest
       (s\<lparr>botChildren := AList.update (worker_id found) (nextPid s)
                           (AList.delete (worker_id found) (botChildren s)),
          expectedBotWorkerShutdowns := insert (worker_id w) (expectedBotWorkerShutdowns s),
          nextPid := Suc (nextPid s),
          botListeners := (botListeners s)(nextPid s \<mapsto> found),
          effects := effects s @ [Send c Shutdown, Fork (BotRole found) (nextPid s)]\<rparr>)"
  using assms
  apply (simp add: restartBotWorkerById_def killChild_def send_def restart_finish_def
      spawnBotWorker_def Let_def)
  apply (intro arg_cong[where f = "lazy_loop rest"])
  apply (rule supervisor.equality; simp)
  done


lemma restart_stays_suspended_run:
  "RestartAwaitKill found child caller \<in> set (tasks s) \<Longrightarrow> ChildExit child \<notin> set es \<Longrightarrow>
   RestartAwaitKill found child caller \<in> set (tasks (run es s))"
proof (induction es arbitrary: s)
  case Nil
  then show ?case by simp
next
  case (Cons e es)
  from Cons.prems have "RestartAwaitKill found child caller \<in> set (tasks (step e s))"
    by (intro restart_stays_suspended) auto
  then show ?case
    using Cons.IH[of "step e s"] Cons.prems by simp
qed



text \<open>
  A registered worker process has not exited: the \<^verbatim>\<open>exit\<close> listener that \<^verbatim>\<open>spawnBotWorker\<close> puts
  on a child removes the registration of its worker, and only a process forked in the same
  step is ever registered.
\<close>

lemma registeredAlive_send [simp]: "registeredAlive (send c m s) \<longleftrightarrow> registeredAlive s"
  by (simp add: registeredAlive_def send_def)

lemma registeredAlive_suspend [simp]: "registeredAlive (suspend t s) \<longleftrightarrow> registeredAlive s"
  by (simp add: registeredAlive_def suspend_def)

lemma registeredAlive_updates [simp]:
  "registeredAlive (s\<lparr>expectedBotWorkerShutdowns := b\<rparr>) \<longleftrightarrow> registeredAlive s"
  "registeredAlive (s\<lparr>shardInfoRequests := c\<rparr>) \<longleftrightarrow> registeredAlive s"
  "registeredAlive (s\<lparr>pendingEvents := d\<rparr>) \<longleftrightarrow> registeredAlive s"
  "registeredAlive (s\<lparr>restChild := e\<rparr>) \<longleftrightarrow> registeredAlive s"
  "registeredAlive (s\<lparr>gatewayChild := f\<rparr>) \<longleftrightarrow> registeredAlive s"
  "registeredAlive (s\<lparr>stopped := g\<rparr>) \<longleftrightarrow> registeredAlive s"
  "registeredAlive (s\<lparr>reloading := h\<rparr>) \<longleftrightarrow> registeredAlive s"
  "registeredAlive (s\<lparr>killed := i\<rparr>) \<longleftrightarrow> registeredAlive s"
  "registeredAlive (s\<lparr>timers := k\<rparr>) \<longleftrightarrow> registeredAlive s"
  "registeredAlive (s\<lparr>syncsDone := l\<rparr>) \<longleftrightarrow> registeredAlive s"
  "registeredAlive (s\<lparr>syncsStarted := m\<rparr>) \<longleftrightarrow> registeredAlive s"
  "registeredAlive (s\<lparr>effects := n\<rparr>) \<longleftrightarrow> registeredAlive s"
  "registeredAlive (s\<lparr>tasks := ts\<rparr>) \<longleftrightarrow> registeredAlive s"
  by (simp_all add: registeredAlive_def)

lemma registeredAlive_clear [simp]:
  "registeredAlive s \<Longrightarrow> registeredAlive (s\<lparr>botChildren := []\<rparr>)"
  by (simp add: registeredAlive_def)

lemma registeredAlive_delete [simp]:
  "registeredAlive s \<Longrightarrow> registeredAlive (s\<lparr>botChildren := AList.delete wid (botChildren s)\<rparr>)"
  by (auto simp: registeredAlive_def AList.delete_conv' split: if_splits)

lemma registeredAlive_spawnBotWorker [simp]:
  "registeredAlive s \<Longrightarrow> registeredAlive (spawnBotWorker w s)"
  unfolding registeredAlive_def spawnBotWorker_def
  by (auto simp: AList.update_conv' less_Suc_eq split: if_splits)

lemma registeredAlive_spawnRestWorker [simp]:
  "registeredAlive s \<Longrightarrow> registeredAlive (spawnRestWorker s)"
  unfolding registeredAlive_def spawnRestWorker_def
  by (auto simp: less_Suc_eq)

lemma registeredAlive_spawnGatewayWorker [simp]:
  "registeredAlive s \<Longrightarrow> registeredAlive (spawnGatewayWorker s)"
  unfolding registeredAlive_def spawnGatewayWorker_def
  by (auto simp: less_Suc_eq)

lemma registeredAlive_startCommandSync [simp]:
  "registeredAlive (snd (startCommandSync s)) \<longleftrightarrow> registeredAlive s"
  by (simp add: startCommandSync_def)

lemma registeredAlive_fold_spawn [simp]:
  "registeredAlive s \<Longrightarrow> registeredAlive (fold spawnBotWorker ws s)"
  by (induction ws arbitrary: s) simp_all

lemma registeredAlive_fold_send [simp]:
  "registeredAlive (fold (\<lambda>c. send c m) cs s) \<longleftrightarrow> registeredAlive s"
  by (induction cs arbitrary: s) simp_all

lemma registeredAlive_flush_loop [simp]:
  "registeredAlive (flush_loop wid w evs keep s) \<longleftrightarrow> registeredAlive s"
  by (induction evs arbitrary: keep s) simp_all

lemma registeredAlive_flush [simp]:
  "registeredAlive (flushPendingEventsForWorker wid s) \<longleftrightarrow> registeredAlive s"
  by (simp add: flushPendingEventsForWorker_def split: option.splits)

lemma registeredAlive_sendGateway [simp]: "registeredAlive (sendGateway m s) \<longleftrightarrow> registeredAlive s"
  by (simp add: sendGateway_def split: option.splits)

lemma registeredAlive_onBotMessage [simp]: "registeredAlive (onBotMessage c m s) \<longleftrightarrow> registeredAlive s"
  by (simp add: onBotMessage_def split: ipc_message.splits)

lemma registeredAlive_onGatewayMessage [simp]: "registeredAlive (onGatewayMessage m s) \<longleftrightarrow> registeredAlive s"
  by (simp add: onGatewayMessage_def Let_def split: ipc_message.splits option.splits)

lemma registeredAlive_onBotExit [simp]: "registeredAlive s \<Longrightarrow> registeredAlive (onBotExit w s)"
  by (simp add: onBotExit_def Let_def)

lemma registeredAlive_respawnTimer [simp]: "registeredAlive s \<Longrightarrow> registeredAlive (respawnTimer w s)"
  by (simp add: respawnTimer_def)

lemma registeredAlive_killChild [simp]: "registeredAlive (fst (killChild c s)) \<longleftrightarrow> registeredAlive s"
  by (simp add: killChild_def split: option.splits)

lemma registeredAlive_killChildren [simp]: "registeredAlive (fst (killChildren cs s)) \<longleftrightarrow> registeredAlive s"
proof (induction cs arbitrary: s)
  case Nil
  show ?case by simp
next
  case (Cons c cs)
  have "registeredAlive (fst (killChildren cs (fst (killChild (Some c) s)))) \<longleftrightarrow> registeredAlive s"
    by (simp add: Cons.IH)
  then show ?case
    by (simp add: split_def)
qed

lemma registeredAlive_restart_finish [simp]: "registeredAlive s \<Longrightarrow> registeredAlive (restart_finish w s)"
  by (simp add: restart_finish_def)

lemma registeredAlive_restartBotWorkerById:
  "restartBotWorkerById wid s = Inr (s1, r) \<Longrightarrow> registeredAlive s \<Longrightarrow> registeredAlive s1"
  unfolding restartBotWorkerById_def Let_def
  apply (simp split: option.splits prod.splits)
   apply (metis fst_conv registeredAlive_killChild registeredAlive_send registeredAlive_updates(1)
      registeredAlive_restart_finish registeredAlive_spawnBotWorker)+
  done

lemma registeredAlive_restartWorker:
  "restartWorker wid s = Inr s1 \<Longrightarrow> registeredAlive s \<Longrightarrow> registeredAlive s1"
  unfolding restartWorker_def
  by (auto split: sum.splits option.splits prod.splits dest: registeredAlive_restartBotWorkerById)

lemma registeredAlive_lazy_loop [simp]: "registeredAlive s \<Longrightarrow> registeredAlive (lazy_loop ws s)"
proof (induction ws arbitrary: s)
  case Nil
  then show ?case by simp
next
  case (Cons w ws)
  then show ?case
    by (auto split: sum.splits option.splits prod.splits dest: registeredAlive_restartBotWorkerById)
qed

lemma registeredAlive_reloadLazy [simp]: "registeredAlive s \<Longrightarrow> registeredAlive (reloadLazy s)"
  by (simp add: reloadLazy_def split_def)

lemma registeredAlive_reload_afterKills [simp]: "registeredAlive s \<Longrightarrow> registeredAlive (reload_afterKills k s)"
  by (simp add: reload_afterKills_def Let_def)

lemma registeredAlive_reload [simp]: "registeredAlive s \<Longrightarrow> registeredAlive (reload s)"
  by (simp add: reload_def split_def Let_def)

lemma registeredAlive_fullReload_afterRest [simp]: "registeredAlive s \<Longrightarrow> registeredAlive (fullReload_afterRest s)"
  by (simp add: fullReload_afterRest_def Let_def)

lemma registeredAlive_fullReload_afterGateway [simp]: "registeredAlive s \<Longrightarrow> registeredAlive (fullReload_afterGateway s)"
  by (simp add: fullReload_afterGateway_def Let_def case_killChild_fst split: option.splits)

lemma registeredAlive_fullReload_afterKills [simp]: "registeredAlive s \<Longrightarrow> registeredAlive (fullReload_afterKills s)"
  by (simp add: fullReload_afterKills_def Let_def case_killChild_fst split: option.splits)

lemma registeredAlive_fullReload_afterSync [simp]: "registeredAlive s \<Longrightarrow> registeredAlive (fullReload_afterSync s)"
  by (simp add: fullReload_afterSync_def Let_def split_def)

lemma registeredAlive_fullReload [simp]: "registeredAlive s \<Longrightarrow> registeredAlive (fullReload s)"
  by (simp add: fullReload_def split_def)

lemma registeredAlive_stop_afterGateway [simp]: "registeredAlive s \<Longrightarrow> registeredAlive (stop_afterGateway s)"
  by (simp add: stop_afterGateway_def case_killChild_fst split: option.splits)

lemma registeredAlive_stop_afterKills [simp]: "registeredAlive s \<Longrightarrow> registeredAlive (stop_afterKills s)"
  by (simp add: stop_afterKills_def Let_def case_killChild_fst split: option.splits)

lemma registeredAlive_stop [simp]: "registeredAlive s \<Longrightarrow> registeredAlive (stop s)"
  by (simp add: stop_def split_def)

lemma registeredAlive_resumeOnExit [simp]: "registeredAlive s \<Longrightarrow> registeredAlive (resumeOnExit c t s)"
  by (cases t) (simp_all split: option.splits)

lemma registeredAlive_resumeOnSync [simp]: "registeredAlive s \<Longrightarrow> registeredAlive (resumeOnSync k t s)"
  by (cases t) (simp_all add: reloadLazy_afterSync_def)

lemma registeredAlive_fold_resumeOnExit [simp]:
  "registeredAlive s \<Longrightarrow> registeredAlive (fold (resumeOnExit c) ts s)"
  by (induction ts arbitrary: s) simp_all

lemma registeredAlive_fold_resumeOnSync [simp]:
  "registeredAlive s \<Longrightarrow> registeredAlive (fold (resumeOnSync k) ts s)"
  by (induction ts arbitrary: s) simp_all

lemma registeredAlive_timerFires [simp]: "registeredAlive s \<Longrightarrow> registeredAlive (timerFires i s)"
  by (simp add: timerFires_def Let_def split: timer.splits)

lemma registeredAlive_exitListeners:
  assumes "registeredAlive s" "c \<notin> exited s" "c < nextPid s"
  shows "registeredAlive (exitListeners c s)"
proof -
  have marked: "registeredAlive (onBotExit w (s\<lparr>exited := insert c (exited s)\<rparr>))"
    if listener: "botListeners s c = Some w" for w
  proof -
    have reg: "wid = worker_id w" if "map_of (botChildren s) wid = Some c" for wid
      using assms(1) that listener by (fastforce simp: registeredAlive_def)
    show ?thesis
      using assms reg unfolding registeredAlive_def onBotExit_def Let_def
      by (auto simp: AList.delete_conv' split: if_splits)
  qed
  have unlistened: "registeredAlive (s\<lparr>exited := insert c (exited s)\<rparr>)"
    if unheard: "botListeners s c = None"
  proof -
    have reg: "map_of (botChildren s) wid \<noteq> Some c" for wid
      using assms(1) unheard by (fastforce simp: registeredAlive_def)
    show ?thesis
      using assms reg unfolding registeredAlive_def by auto
  qed
  show ?thesis
    using marked unlistened
    by (simp add: exitListeners_def Let_def split: option.splits)
qed

lemma registeredAlive_childExit [simp]: "registeredAlive s \<Longrightarrow> registeredAlive (childExit c s)"
  by (simp add: childExit_exitListeners registeredAlive_exitListeners)

lemma registeredAlive_commandSyncDone [simp]: "registeredAlive s \<Longrightarrow> registeredAlive (commandSyncDone k s)"
  by (simp add: commandSyncDone_def Let_def)

lemma registeredAlive_step: "registeredAlive s \<Longrightarrow> registeredAlive (step e s)"
proof (cases e)
  case (Call c)
  assume "registeredAlive s"
  then show ?thesis
    using Call
    by (cases c) (auto simp: restartShard_def split: sum.splits option.splits if_splits
        dest: registeredAlive_restartWorker)
qed simp_all

lemma registeredAlive_run: "registeredAlive s \<Longrightarrow> registeredAlive (run es s)"
  by (induction es arbitrary: s) (simp_all add: registeredAlive_step)

lemma registeredAlive_start: "registeredAlive (startSupervisor workers)"
proof -
  have "registeredAlive \<lparr>botWorkers = workers, botChildren = [], expectedBotWorkerShutdowns = {},
                shardInfoRequests = Map.empty, shardOwner = buildShardOwner workers,
                pendingEvents = [], restChild = None, gatewayChild = None,
                stopped = False, reloading = False, nextPid = 0, botListeners = Map.empty,
                killed = {}, exited = {}, timers = [], syncsStarted = 0, syncsDone = {},
                tasks = [], effects = []\<rparr>"
    by (simp add: registeredAlive_def)
  then show ?thesis
    by (simp add: startSupervisor_def Let_def)
qed

lemma registered_child_has_not_exited:
  "map_of (botChildren (run history (startSupervisor workers))) wid = Some c \<Longrightarrow>
   c \<notin> exited (run history (startSupervisor workers))"
  using registeredAlive_run[OF registeredAlive_start, of history workers]
  by (simp add: registeredAlive_def)

text \<open>
  Claim C2, as the code has it: every lazy reload takes the workers one at a time, in
  ascending order of their lowest shard id, and waits for the exit of the old process of a
  worker before it forks the replacement and goes to the next worker; it waits for no
  announcement of readiness. The statement holds in every state \<open>s\<close> of the supervisor,
  whatever else is going on. In its order:

  \<^item> the order of the loop is the plan sorted by lowest shard id, a rearrangement of the
    plan in which workers with the same lowest shard keep the order of the plan;
  \<^item> unless the supervisor is stopped, the call sets \<^verbatim>\<open>reloading\<close>, starts a command sync and
    suspends; the end of that sync starts the loop over the workers in that order, in the
    same turn (stated for a sync that no other suspended call awaits);
  \<^item> the id of a worker of the plan is found in the plan, and stands for the first worker
    of the plan with that id;
  \<^item> the turn of a worker without a registered process forks its replacement at once and
    goes on with the next worker (this and the next two cases are all there is: see the
    last item);
  \<^item> the turn of a worker whose registered process has neither exited nor been
    force-killed sends the shutdown, sets the kill timer, forks nothing and suspends the
    reload on the exit of that process;
  \<^item> the turn of a worker whose registered process has been force-killed sends the
    shutdown, forks the replacement at once and goes on with the next worker;
  \<^item> a reload suspended on the exit of a process stays suspended through every run of
    events that does not contain that exit; the exit of another process and the end of a
    command sync put it back unchanged;
  \<^item> the turn that handles the exit it waits for forks the replacement, with a process
    number not used before; when no other suspended call waits for that exit, the state
    after that turn is the one in which the replacement has been forked and the loop has
    gone on with the remaining workers, up to its next suspension or its end;
  \<^item> in every state the supervisor reaches from its start, a registered worker process has
    not exited.
\<close>

theorem lazy_reload_one_worker_at_a_time:
  "sorted (map lowestShard (workersInOrder (botWorkers s)))
   \<and> mset (workersInOrder (botWorkers s)) = mset (botWorkers s)
   \<and> (\<forall>n. filter (\<lambda>x. lowestShard x = n) (workersInOrder (botWorkers s))
             = filter (\<lambda>x. lowestShard x = n) (botWorkers s))
   \<and> (\<not> stopped s \<longrightarrow>
        step (Call ReloadLazy) s =
          s\<lparr>reloading := True, syncsStarted := Suc (syncsStarted s),
            effects := effects s @ [StartCommandSync (syncsStarted s)],
            tasks := tasks s @ [LazyAwaitSync (syncsStarted s)]\<rparr>)
   \<and> (k \<notin> syncsDone s \<and> k < syncsStarted s \<and> tasks s = before @ LazyAwaitSync k # after
        \<and> (\<forall>t\<in>set (before @ after). \<not> awaitsSync t k) \<longrightarrow>
        step (CommandSyncDone k) s =
          (lazy_loop (workersInOrder (botWorkers s))
             (s\<lparr>syncsDone := insert k (syncsDone s), tasks := before\<rparr>))
            \<lparr>tasks := tasks (lazy_loop (workersInOrder (botWorkers s))
                              (s\<lparr>syncsDone := insert k (syncsDone s), tasks := before\<rparr>)) @ after\<rparr>)
   \<and> (w \<in> set (botWorkers s) \<longrightarrow>
        (\<exists>first. find (\<lambda>x. worker_id x = worker_id w) (botWorkers s) = Some first
           \<and> worker_id first = worker_id w))
   \<and> (find (\<lambda>x. worker_id x = worker_id w) (botWorkers s) = Some found
        \<and> map_of (botChildren s) (worker_id w) = None \<longrightarrow>
        lazy_loop (w # rest) s =
          lazy_loop rest
            (s\<lparr>botChildren := AList.update (worker_id found) (nextPid s) (botChildren s),
               expectedBotWorkerShutdowns := insert (worker_id w) (expectedBotWorkerShutdowns s),
               nextPid := Suc (nextPid s),
               botListeners := (botListeners s)(nextPid s \<mapsto> found),
               effects := effects s @ [Fork (BotRole found) (nextPid s)]\<rparr>))
   \<and> (find (\<lambda>x. worker_id x = worker_id w) (botWorkers s) = Some found
        \<and> map_of (botChildren s) (worker_id w) = Some c \<and> c \<notin> killed s \<and> c \<notin> exited s \<longrightarrow>
        lazy_loop (w # rest) s =
          s\<lparr>expectedBotWorkerShutdowns := insert (worker_id w) (expectedBotWorkerShutdowns s),
            timers := timers s @ [(5000, SigKillTimer c)],
            effects := effects s @ [Send c Shutdown, SetTimeout 5000 (SigKillTimer c), Send c Shutdown],
            tasks := tasks s @ [RestartAwaitKill found c (Some rest)]\<rparr>)
   \<and> (find (\<lambda>x. worker_id x = worker_id w) (botWorkers s) = Some found
        \<and> map_of (botChildren s) (worker_id w) = Some c \<and> c \<in> killed s \<longrightarrow>
        lazy_loop (w # rest) s =
          lazy_loop rest
            (s\<lparr>botChildren := AList.update (worker_id found) (nextPid s)
                                (AList.delete (worker_id found) (botChildren s)),
               expectedBotWorkerShutdowns := insert (worker_id w) (expectedBotWorkerShutdowns s),
               nextPid := Suc (nextPid s),
               botListeners := (botListeners s)(nextPid s \<mapsto> found),
               effects := effects s @ [Send c Shutdown, Fork (BotRole found) (nextPid s)]\<rparr>))
   \<and> (RestartAwaitKill found c caller \<in> set (tasks s) \<and> ChildExit c \<notin> set es \<longrightarrow>
        RestartAwaitKill found c caller \<in> set (tasks (run es s)))
   \<and> (other \<noteq> c \<longrightarrow>
        resumeOnExit other (RestartAwaitKill found c caller) s
          = s\<lparr>tasks := tasks s @ [RestartAwaitKill found c caller]\<rparr>)
   \<and> resumeOnSync k (RestartAwaitKill found c caller) s
        = s\<lparr>tasks := tasks s @ [RestartAwaitKill found c caller]\<rparr>
   \<and> (c \<notin> exited s \<and> c < nextPid s \<and> RestartAwaitKill found c caller \<in> set (tasks s) \<longrightarrow>
        (\<exists>pre p later. effects (step (ChildExit c) s)
            = effects s @ pre @ Fork (BotRole found) p # later \<and> nextPid s \<le> p))
   \<and> (c \<notin> exited s \<and> c < nextPid s \<and> tasks s = before @ RestartAwaitKill found c (Some rest) # after
        \<and> (\<forall>t\<in>set (before @ after). \<not> awaitsExit t c) \<longrightarrow>
        step (ChildExit c) s =
          (lazy_loop rest (restart_finish found ((exitListeners c s)\<lparr>tasks := before\<rparr>)))
            \<lparr>tasks := tasks (lazy_loop rest (restart_finish found ((exitListeners c s)\<lparr>tasks := before\<rparr>)))
                       @ after\<rparr>)
   \<and> (map_of (botChildren (run history (startSupervisor workers))) wid = Some c \<longrightarrow>
        c \<notin> exited (run history (startSupervisor workers)))"
proof -
  have others: "other \<noteq> c \<longrightarrow>
        resumeOnExit other (RestartAwaitKill found c caller) s
          = s\<lparr>tasks := tasks s @ [RestartAwaitKill found c caller]\<rparr>"
    "resumeOnSync k (RestartAwaitKill found c caller) s
        = s\<lparr>tasks := tasks s @ [RestartAwaitKill found c caller]\<rparr>"
    by (auto simp: suspend_def)
  show ?thesis
    apply (intro conjI)
    subgoal by (simp add: workersInOrder_def)
    subgoal by (simp add: workersInOrder_def)
    subgoal by (simp add: workersInOrder_def sort_key_stable)
    subgoal using reloadLazy_starts[of s] by blast
    subgoal using sync_resumes_lazy_reload[of k s before after] by blast
    subgoal using find_first_with_id[of w "botWorkers s"] by blast
    subgoal using lazy_loop_unregistered[of w s found rest] by blast
    subgoal using lazy_loop_live_child[of w s found c rest] by blast
    subgoal using lazy_loop_killed_child[of w s found c rest] by blast
    subgoal using restart_stays_suspended_run[of found c caller s es] by blast
    subgoal by (rule others(1))
    subgoal by (rule others(2))
    subgoal using exit_forks_replacement[of c s found caller] by blast
    subgoal using exit_resumes_suspended_restart[of c s before found rest after] by blast
    subgoal using registered_child_has_not_exited[of history workers wid c] by blast
    done
qed

theorem lazy_reload_one_worker_at_a_time_witness:
  "tasks (run [Call ReloadLazy, CommandSyncDone 1]
      (startSupervisor [\<lparr>worker_id = ''c'', shards = [2, 3]\<rparr>,
                        \<lparr>worker_id = ''b'', shards = [4, 5]\<rparr>,
                        \<lparr>worker_id = ''a'', shards = [0, 1]\<rparr>]))
     = [RestartAwaitKill \<lparr>worker_id = ''a'', shards = [0, 1]\<rparr> 3
          (Some [\<lparr>worker_id = ''c'', shards = [2, 3]\<rparr>, \<lparr>worker_id = ''b'', shards = [4, 5]\<rparr>])]
   \<and> effects (run [Call ReloadLazy, CommandSyncDone 1]
      (startSupervisor [\<lparr>worker_id = ''c'', shards = [2, 3]\<rparr>,
                        \<lparr>worker_id = ''b'', shards = [4, 5]\<rparr>,
                        \<lparr>worker_id = ''a'', shards = [0, 1]\<rparr>]))
     = effects (startSupervisor [\<lparr>worker_id = ''c'', shards = [2, 3]\<rparr>,
                        \<lparr>worker_id = ''b'', shards = [4, 5]\<rparr>,
                        \<lparr>worker_id = ''a'', shards = [0, 1]\<rparr>])
       @ [StartCommandSync 1, Send 3 Shutdown, SetTimeout 5000 (SigKillTimer 3), Send 3 Shutdown]
   \<and> RestartAwaitKill \<lparr>worker_id = ''a'', shards = [0, 1]\<rparr> 3
          (Some [\<lparr>worker_id = ''c'', shards = [2, 3]\<rparr>, \<lparr>worker_id = ''b'', shards = [4, 5]\<rparr>])
       \<in> set (tasks (run [Call ReloadLazy, CommandSyncDone 1,
                           GatewayMessage (GatewayEvent 0 (Payload None ''p'')),
                           ChildExit 1, TimerFires 0, Call (RestartWorker ''b'')]
      (startSupervisor [\<lparr>worker_id = ''c'', shards = [2, 3]\<rparr>,
                        \<lparr>worker_id = ''b'', shards = [4, 5]\<rparr>,
                        \<lparr>worker_id = ''a'', shards = [0, 1]\<rparr>])))
   \<and> effects (run [Call ReloadLazy, CommandSyncDone 1, ChildExit 1, ChildExit 3]
      (startSupervisor [\<lparr>worker_id = ''c'', shards = [2, 3]\<rparr>,
                        \<lparr>worker_id = ''b'', shards = [4, 5]\<rparr>,
                        \<lparr>worker_id = ''a'', shards = [0, 1]\<rparr>]))
     = effects (startSupervisor [\<lparr>worker_id = ''c'', shards = [2, 3]\<rparr>,
                        \<lparr>worker_id = ''b'', shards = [4, 5]\<rparr>,
                        \<lparr>worker_id = ''a'', shards = [0, 1]\<rparr>])
       @ [StartCommandSync 1, Send 3 Shutdown, SetTimeout 5000 (SigKillTimer 3), Send 3 Shutdown,
          Fork (BotRole \<lparr>worker_id = ''a'', shards = [0, 1]\<rparr>) 5,
          Fork (BotRole \<lparr>worker_id = ''c'', shards = [2, 3]\<rparr>) 6,
          Send 2 Shutdown, SetTimeout 5000 (SigKillTimer 2), Send 2 Shutdown]
   \<and> effects (run [Call (RestartWorker ''a''), TimerFires 0, Call ReloadLazy, CommandSyncDone 1]
      (startSupervisor [\<lparr>worker_id = ''c'', shards = [2, 3]\<rparr>,
                        \<lparr>worker_id = ''b'', shards = [4, 5]\<rparr>,
                        \<lparr>worker_id = ''a'', shards = [0, 1]\<rparr>]))
     = effects (startSupervisor [\<lparr>worker_id = ''c'', shards = [2, 3]\<rparr>,
                        \<lparr>worker_id = ''b'', shards = [4, 5]\<rparr>,
                        \<lparr>worker_id = ''a'', shards = [0, 1]\<rparr>])
       @ [Send 3 Shutdown, SetTimeout 5000 (SigKillTimer 3), Send 3 Shutdown, Kill 3,
          StartCommandSync 1, Send 3 Shutdown,
          Fork (BotRole \<lparr>worker_id = ''a'', shards = [0, 1]\<rparr>) 5,
          Send 1 Shutdown, SetTimeout 5000 (SigKillTimer 1), Send 1 Shutdown]
   \<and> map_of (botChildren (run [Call ReloadLazy, CommandSyncDone 1]
      (startSupervisor [\<lparr>worker_id = ''c'', shards = [2, 3]\<rparr>,
                        \<lparr>worker_id = ''b'', shards = [4, 5]\<rparr>,
                        \<lparr>worker_id = ''a'', shards = [0, 1]\<rparr>]))) ''a'' = Some 3
   \<and> 3 \<notin> exited (run [Call ReloadLazy, CommandSyncDone 1]
      (startSupervisor [\<lparr>worker_id = ''c'', shards = [2, 3]\<rparr>,
                        \<lparr>worker_id = ''b'', shards = [4, 5]\<rparr>,
                        \<lparr>worker_id = ''a'', shards = [0, 1]\<rparr>]))"
proof -
  define wa wb wc where w: "wa = \<lparr>worker_id = ''a'', shards = [0::int, 1]\<rparr>"
    "wb = \<lparr>worker_id = ''b'', shards = [4::int, 5]\<rparr>" "wc = \<lparr>worker_id = ''c'', shards = [2::int, 3]\<rparr>"
  define s0 where "s0 = startSupervisor [wc, wb, wa]"
  define s1 where "s1 = step (Call ReloadLazy) s0"
  define s2 where "s2 = step (CommandSyncDone 1) s1"
  define s3 where "s3 = step (ChildExit 1) s2"
  define u2 where "u2 = run [Call (RestartWorker ''a''), TimerFires 0, Call ReloadLazy] s0"
  note claim = lazy_reload_one_worker_at_a_time
  have r1: "s1 = s0\<lparr>reloading := True, syncsStarted := 2, effects := effects s0 @ [StartCommandSync 1],
      tasks := [LazyAwaitSync 1]\<rparr>"
    using claim[where s = s0,
        THEN conjunct2, THEN conjunct2, THEN conjunct2, THEN conjunct1]
    by (simp add: s1_def) (simp add: s0_def eval_defs)
  have r2: "tasks s2 = [RestartAwaitKill wa 3 (Some [wc, wb])]
      \<and> effects s2 = effects s0 @ [StartCommandSync 1, Send 3 Shutdown, SetTimeout 5000 (SigKillTimer 3),
            Send 3 Shutdown]"
    using claim[where s = s1 and k = 1 and before = "[]" and after = "[]",
        THEN conjunct2, THEN conjunct2, THEN conjunct2, THEN conjunct2, THEN conjunct1]
      claim[where s = "s1\<lparr>syncsDone := {1}, tasks := []\<rparr>" and w = wa and found = wa and c = 3
        and rest = "[wc, wb]",
        THEN conjunct2, THEN conjunct2, THEN conjunct2, THEN conjunct2, THEN conjunct2, THEN conjunct2, THEN conjunct2, THEN conjunct1]
    by (simp add: s2_def r1) (simp add: s0_def w eval_defs)
  have r3: "RestartAwaitKill wa 3 (Some [wc, wb])
      \<in> set (tasks (run [GatewayMessage (GatewayEvent 0 (Payload None ''p'')), ChildExit 1, TimerFires 0,
                          Call (RestartWorker ''b'')] s2))"
    using claim[where s = s2 and found = wa and c = 3 and caller = "Some [wc, wb]"
        and es = "[GatewayMessage (GatewayEvent 0 (Payload None ''p'')), ChildExit 1, TimerFires 0,
                   Call (RestartWorker ''b'')]",
        THEN conjunct2, THEN conjunct2, THEN conjunct2, THEN conjunct2, THEN conjunct2, THEN conjunct2, THEN conjunct2, THEN conjunct2, THEN conjunct2, THEN conjunct1] r2
    by simp
  have r4: "effects (step (ChildExit 3) s3)
      = effects s0 @ [StartCommandSync 1, Send 3 Shutdown, SetTimeout 5000 (SigKillTimer 3), Send 3 Shutdown,
          Fork (BotRole wa) 5, Fork (BotRole wc) 6,
          Send 2 Shutdown, SetTimeout 5000 (SigKillTimer 2), Send 2 Shutdown]"
    using claim[where s = s3 and c = 3 and found = wa and rest = "[wc, wb]" and before = "[]"
        and after = "[]",
        THEN conjunct2, THEN conjunct2, THEN conjunct2, THEN conjunct2, THEN conjunct2, THEN conjunct2, THEN conjunct2, THEN conjunct2, THEN conjunct2, THEN conjunct2, THEN conjunct2, THEN conjunct2, THEN conjunct2, THEN conjunct1]
      claim[where s = "restart_finish wa ((exitListeners 3 s3)\<lparr>tasks := []\<rparr>)" and w = wc
        and found = wc and rest = "[wb]",
        THEN conjunct2, THEN conjunct2, THEN conjunct2, THEN conjunct2, THEN conjunct2, THEN conjunct2, THEN conjunct1]
      claim[where s = "spawnBotWorker wc ((restart_finish wa ((exitListeners 3 s3)\<lparr>tasks := []\<rparr>))
          \<lparr>expectedBotWorkerShutdowns := insert ''c''
              (expectedBotWorkerShutdowns (restart_finish wa ((exitListeners 3 s3)\<lparr>tasks := []\<rparr>)))\<rparr>)"
        and w = wb and found = wb and c = 2 and rest = "[]",
        THEN conjunct2, THEN conjunct2, THEN conjunct2, THEN conjunct2, THEN conjunct2, THEN conjunct2, THEN conjunct2, THEN conjunct1]
    by (simp add: s3_def s2_def s1_def s0_def w exitListeners_def eval_defs)
  have r5: "effects (step (CommandSyncDone 1) u2)
      = effects s0 @ [Send 3 Shutdown, SetTimeout 5000 (SigKillTimer 3), Send 3 Shutdown, Kill 3,
          StartCommandSync 1, Send 3 Shutdown, Fork (BotRole wa) 5,
          Send 1 Shutdown, SetTimeout 5000 (SigKillTimer 1), Send 1 Shutdown]"
    using claim[where s = u2 and k = 1 and before = "[RestartAwaitKill wa 3 None]" and after = "[]",
        THEN conjunct2, THEN conjunct2, THEN conjunct2, THEN conjunct2, THEN conjunct1]
      claim[where s = "u2\<lparr>syncsDone := {1}, tasks := [RestartAwaitKill wa 3 None]\<rparr>" and w = wa
        and found = wa and c = 3 and rest = "[wc, wb]",
        THEN conjunct2, THEN conjunct2, THEN conjunct2, THEN conjunct2, THEN conjunct2, THEN conjunct2, THEN conjunct2, THEN conjunct2, THEN conjunct1]
    by (simp add: u2_def s0_def w eval_defs)
  have r6: "map_of (botChildren s2) ''a'' = Some 3"
    by (simp add: s2_def s1_def s0_def w eval_defs)
  have r7: "3 \<notin> exited s2"
    using claim[where history = "[Call ReloadLazy, CommandSyncDone 1]" and workers = "[wc, wb, wa]"
        and wid = "''a''" and c = 3,
        THEN conjunct2, THEN conjunct2, THEN conjunct2, THEN conjunct2, THEN conjunct2, THEN conjunct2, THEN conjunct2, THEN conjunct2, THEN conjunct2, THEN conjunct2, THEN conjunct2, THEN conjunct2, THEN conjunct2, THEN conjunct2] r6
    by (simp add: s2_def s1_def s0_def)
  show ?thesis
    using r2 r3 r4 r5 r6 r7
    unfolding s3_def s2_def s1_def u2_def s0_def w
    by simp
qed


text \<open>
  Claim C2 as stated fails on the wait for readiness and on the wait for the exit. With
  three workers owning \<open>[0, 1]\<close>, \<open>[2, 3]\<close> and \<open>[4, 5]\<close>, the turn that handles the exit of the
  old child of \<^verbatim>\<open>bot-0\<close> forks its replacement (child 5) and sends the shutdown to the child
  of \<^verbatim>\<open>bot-1\<close> (child 2); no message of child 5 has been handled, so the replacement of
  \<^verbatim>\<open>bot-0\<close> and \<^verbatim>\<open>bot-1\<close> are both not ready at that point. And when the child of \<^verbatim>\<open>bot-0\<close>
  (child 1) has been force-killed by the timer of an earlier \<^verbatim>\<open>restartWorker\<close> and its exit
  has not been handled yet, the lazy reload forks the replacement of \<^verbatim>\<open>bot-0\<close> and sends the
  shutdown to the child of \<^verbatim>\<open>bot-1\<close> in the turn in which the command sync ends: it has
  waited for no exit. The order is not strict either: the planner accepts two workers
  whose lowest shard is the same.
\<close>

theorem lazy_reload_does_not_wait_for_readiness:
  "effects (run [Call ReloadLazy, CommandSyncDone 1, ChildExit 1]
      (startSupervisor [\<lparr>worker_id = ''bot-0'', shards = [0, 1]\<rparr>,
                        \<lparr>worker_id = ''bot-1'', shards = [2, 3]\<rparr>,
                        \<lparr>worker_id = ''bot-2'', shards = [4, 5]\<rparr>]))
     = effects (run [Call ReloadLazy, CommandSyncDone 1]
         (startSupervisor [\<lparr>worker_id = ''bot-0'', shards = [0, 1]\<rparr>,
                           \<lparr>worker_id = ''bot-1'', shards = [2, 3]\<rparr>,
                           \<lparr>worker_id = ''bot-2'', shards = [4, 5]\<rparr>]))
       @ [Fork (BotRole \<lparr>worker_id = ''bot-0'', shards = [0, 1]\<rparr>) 5,
          Send 2 Shutdown, SetTimeout 5000 (SigKillTimer 2), Send 2 Shutdown]
   \<and> map_of (botChildren (run [Call ReloadLazy, CommandSyncDone 1, ChildExit 1]
      (startSupervisor [\<lparr>worker_id = ''bot-0'', shards = [0, 1]\<rparr>,
                        \<lparr>worker_id = ''bot-1'', shards = [2, 3]\<rparr>,
                        \<lparr>worker_id = ''bot-2'', shards = [4, 5]\<rparr>]))) ''bot-1'' = Some 2
   \<and> effects (run [Call (RestartWorker ''bot-0''), TimerFires 0, Call ReloadLazy, CommandSyncDone 1]
      (startSupervisor [\<lparr>worker_id = ''bot-0'', shards = [0, 1]\<rparr>,
                        \<lparr>worker_id = ''bot-1'', shards = [2, 3]\<rparr>,
                        \<lparr>worker_id = ''bot-2'', shards = [4, 5]\<rparr>]))
     = effects (startSupervisor [\<lparr>worker_id = ''bot-0'', shards = [0, 1]\<rparr>,
                        \<lparr>worker_id = ''bot-1'', shards = [2, 3]\<rparr>,
                        \<lparr>worker_id = ''bot-2'', shards = [4, 5]\<rparr>])
       @ [Send 1 Shutdown, SetTimeout 5000 (SigKillTimer 1), Send 1 Shutdown, Kill 1,
          StartCommandSync 1, Send 1 Shutdown,
          Fork (BotRole \<lparr>worker_id = ''bot-0'', shards = [0, 1]\<rparr>) 5,
          Send 2 Shutdown, SetTimeout 5000 (SigKillTimer 2), Send 2 Shutdown]
   \<and> exited (run [Call (RestartWorker ''bot-0''), TimerFires 0, Call ReloadLazy, CommandSyncDone 1]
      (startSupervisor [\<lparr>worker_id = ''bot-0'', shards = [0, 1]\<rparr>,
                        \<lparr>worker_id = ''bot-1'', shards = [2, 3]\<rparr>,
                        \<lparr>worker_id = ''bot-2'', shards = [4, 5]\<rparr>])) = {}
   \<and> normalizeBotWorkers
        (Some (BotWorkersList [\<lparr>cfg_id = ''x'', cfg_shards = ShardsArray [0, 1]\<rparr>,
                               \<lparr>cfg_id = ''y'', cfg_shards = ShardsArray [0, 2]\<rparr>])) 0 2 1
     = Inr [\<lparr>worker_id = ''x'', shards = [0, 1]\<rparr>, \<lparr>worker_id = ''y'', shards = [0, 2]\<rparr>]
   \<and> map lowestShard (workersInOrder [\<lparr>worker_id = ''x'', shards = [0, 1]\<rparr>,
                                        \<lparr>worker_id = ''y'', shards = [0, 2]\<rparr>]) = [0, 0]"
  by (simp add: eval_defs normalizeBotWorkers_def expandShardRange_def)

end
